theory Spec2Isabelle
  imports Complex_Main "HOL-Library.Word" "HOL-Library.Multiset" "HOL-Library.List_Lexorder"
    "HOL-Library.Code_Target_Nat"
begin

unbundle bit_operations_syntax

section \<open>JavaScript strings\<close>

text \<open>
  A JavaScript string is a sequence of UTF-16 code units; \<open>charCodeAt\<close> reads one
  unit, \<open>===\<close> compares unit by unit, and the default \<open>Array.prototype.sort\<close>
  orders strings lexicographically by unit (the order \<open>HOL-Library.List_Lexorder\<close>
  puts on lists).
\<close>

type_synonym jsstring = "16 word list"

abbreviation js :: "string \<Rightarrow> jsstring" where
  "js s \<equiv> map of_char s"

section \<open>The seeded generator of the shorts feed\<close>

text \<open>
  \<^verbatim>\<open>hash32\<close>: \<open>h\<close> starts at 2166136261; for each code unit, \<open>h ^= c\<close> and
  \<open>h = Math.imul(h, 16777619) >>> 0\<close>.
\<close>

definition hash32_step :: "32 word \<Rightarrow> 16 word \<Rightarrow> 32 word" where
  "hash32_step h c = (h XOR ucast c) * 16777619"

definition hash32 :: "jsstring \<Rightarrow> 32 word" where
  "hash32 s = foldl hash32_step 2166136261 s"

text \<open>
  \<^verbatim>\<open>mulberry32\<close>: the closure's variable \<open>t\<close> is a JavaScript number that
  \<open>t += 0x6D2B79F5\<close> increases without wrapping; every use of \<open>t\<close> goes through a
  bitwise operator, which reads it modulo \<open>2^32\<close>. The state is therefore a natural
  number and \<open>word_of_nat\<close> is the conversion the bitwise operators apply (exact as long
  as \<open>t\<close> is below \<open>2^53\<close>, that is for the first four million draws).
  The returned number is \<open>k / 4294967296\<close> for a 32-bit \<open>k\<close>; \<open>rand_next\<close>
  returns \<open>k\<close> and the new state.
\<close>

type_synonym rng = nat

definition mulberry32 :: "32 word \<Rightarrow> rng" where
  "mulberry32 a = unat a"

definition mulberry_mix :: "nat \<Rightarrow> 32 word" where
  "mulberry_mix t =
     (let w = (word_of_nat t :: 32 word);
          r = (w XOR drop_bit 15 w) * (1 OR w);
          r' = r XOR (r + (r XOR drop_bit 7 r) * (61 OR r))
      in r' XOR drop_bit 14 r')"

definition rand_next :: "rng \<Rightarrow> 32 word \<times> rng" where
  "rand_next t = (let t' = t + 0x6D2B79F5 in (mulberry_mix t', t'))"

text \<open>
  \<open>Math.floor(rand() * (i + 1))\<close> with \<open>rand() = k / 2^32\<close>: the product
  \<open>k * (i + 1)\<close> is exact in a double while it stays below \<open>2^53\<close> (any array of
  up to two million elements), and then the floor is the integer quotient.
\<close>

definition floor_scaled :: "32 word \<Rightarrow> nat \<Rightarrow> nat" where
  "floor_scaled k m = (unat k * m) div 4294967296"

text \<open>
  \<^verbatim>\<open>shuffleInPlace\<close>: \<open>for (let i = arr.length - 1; i > 0; i--)\<close>, draw \<open>j\<close>,
  swap \<open>arr[i]\<close> and \<open>arr[j]\<close>. The generator state is threaded through and returned
  with the array.
\<close>

fun shuffle_loop :: "nat \<Rightarrow> 'a list \<Rightarrow> rng \<Rightarrow> 'a list \<times> rng" where
  "shuffle_loop 0 arr t = (arr, t)"
| "shuffle_loop (Suc i) arr t =
     (let (k, t') = rand_next t;
          j = floor_scaled k (Suc i + 1)
      in shuffle_loop i (arr[Suc i := arr ! j, j := arr ! Suc i]) t')"

definition shuffleInPlace :: "'a list \<Rightarrow> rng \<Rightarrow> 'a list \<times> rng" where
  "shuffleInPlace arr t = shuffle_loop (length arr - 1) arr t"

text \<open>The first \<open>n\<close> values of \<open>next()\<close> of a generator, as their 32-bit numerators.\<close>

fun next_values :: "nat \<Rightarrow> rng \<Rightarrow> 32 word list" where
  "next_values 0 t = []"
| "next_values (Suc n) t = (let (k, t') = rand_next t in k # next_values n t')"

subsection \<open>The shuffle in the words of the specification\<close>

text \<open>
  The specification's shuffle, written from its words and not from the code: the value of
  \<open>next()\<close> is a real number in \<open>[0, 1)\<close>; the pass walks the positions from the last
  index down to 1, and at position \<open>i\<close> it swaps the elements at \<open>i\<close> and at
  \<open>j = floor(next() * (i + 1))\<close>. \<open>draws\<close> are the values of \<open>next()\<close> in the order
  drawn.
\<close>

definition unit_value :: "32 word \<Rightarrow> real" where
  "unit_value k = real (unat k) / 4294967296"

definition swap_at :: "nat \<Rightarrow> nat \<Rightarrow> 'a list \<Rightarrow> 'a list" where
  "swap_at i j xs = xs[i := xs ! j, j := xs ! i]"

definition fisher_yates_spec :: "32 word list \<Rightarrow> 'a list \<Rightarrow> 'a list" where
  "fisher_yates_spec draws xs =
     fold (\<lambda>(i, k). swap_at i (nat \<lfloor>unit_value k * real (i + 1)\<rfloor>))
       (zip (rev [1..<length xs]) draws) xs"

section \<open>The recommendation order of the shorts feed\<close>

text \<open>
  The numbers of the scoring code are IEEE doubles. Their arithmetic is a parameter of
  the model: a record of the operations the code uses, so that every statement below holds
  whatever a double addition or comparison returns. \<open>f_num n\<close> is the number with the
  integer value \<open>n\<close>, \<open>f_dec m e\<close> the decimal literal \<open>m \<times> 10\<^sup>-\<^sup>e\<close>
  (\<open>0.8\<close> is \<open>f_dec 8 1\<close>), and \<open>f_unit k\<close> the value \<open>k / 4294967296\<close> that
  \<open>rand()\<close> returns.
\<close>

record 'f arith =
  f_num :: "nat \<Rightarrow> 'f"
  f_dec :: "nat \<Rightarrow> nat \<Rightarrow> 'f"
  f_add :: "'f \<Rightarrow> 'f \<Rightarrow> 'f"
  f_sub :: "'f \<Rightarrow> 'f \<Rightarrow> 'f"
  f_mul :: "'f \<Rightarrow> 'f \<Rightarrow> 'f"
  f_unit :: "32 word \<Rightarrow> 'f"
  f_lt :: "'f \<Rightarrow> 'f \<Rightarrow> bool"

text \<open>
  What \<^verbatim>\<open>readItemMeta\<close> returns, which is also what \<^verbatim>\<open>learnFavFeatures\<close>
  stores for a favorite.
\<close>

record features =
  tags :: "jsstring list"
  actresses :: "jsstring list"
  maker :: jsstring
  series :: jsstring
  label :: jsstring

text \<open>
  A feed item is a DOM node; the ranker reads its id
  (\<open>getAttribute("data-id") || dataset.id || ""\<close>) and its \<^verbatim>\<open>readItemMeta\<close>.
\<close>

record item =
  data_id :: jsstring
  meta :: features

text \<open>
  A \<open>Map\<close> from a feature value to its count: the entries in insertion order.
  \<open>map.get(k)\<close> is \<open>map_of m k\<close>, \<open>map.size === 0\<close> is \<open>m = []\<close>, and
  \<open>map.set(k, v)\<close> replaces the value of a key in place or appends a new entry.
\<close>

type_synonym counts = "(jsstring \<times> nat) list"

fun map_set :: "jsstring \<Rightarrow> nat \<Rightarrow> counts \<Rightarrow> counts" where
  "map_set k v [] = [(k, v)]"
| "map_set k v ((k', v') # kvs) = (if k' = k then (k, v) # kvs else (k', v') # map_set k v kvs)"

text \<open>\<open>map.get(k) || 0\<close>\<close>

definition get_or_0 :: "counts \<Rightarrow> jsstring \<Rightarrow> nat" where
  "get_or_0 m k = (case map_of m k of None \<Rightarrow> 0 | Some c \<Rightarrow> c)"

text \<open>The profile: five such maps.\<close>

record profile =
  p_tags :: counts
  p_actresses :: counts
  p_maker :: counts
  p_series :: counts
  p_label :: counts

definition empty_profile :: profile where
  "empty_profile = \<lparr>p_tags = [], p_actresses = [], p_maker = [], p_series = [], p_label = []\<rparr>"

text \<open>\<^verbatim>\<open>addCount\<close> with \<open>w = 1\<close>: an empty key is skipped.\<close>

definition addCount :: "counts \<Rightarrow> jsstring \<Rightarrow> counts" where
  "addCount m key = (if key = [] then m else map_set key (get_or_0 m key + 1) m)"

text \<open>The body of the loop of \<^verbatim>\<open>buildProfile\<close> for a favorite with stored features.\<close>

definition learn :: "features \<Rightarrow> profile \<Rightarrow> profile" where
  "learn f p =
     \<lparr>p_tags = fold (\<lambda>t m. addCount m t) (tags f) (p_tags p),
      p_actresses = fold (\<lambda>a m. addCount m a) (actresses f) (p_actresses p),
      p_maker = (if maker f \<noteq> [] then addCount (p_maker p) (maker f) else p_maker p),
      p_series = (if series f \<noteq> [] then addCount (p_series p) (series f) else p_series p),
      p_label = (if label f \<noteq> [] then addCount (p_label p) (label f) else p_label p)\<rparr>"

text \<open>
  \<^verbatim>\<open>buildProfile\<close>: the favorite set is iterated in insertion order (a list without
  repetition); \<open>feats\<close> is the stored object of learned features, a favorite without an
  entry is skipped.
\<close>

definition buildProfile :: "jsstring list \<Rightarrow> (jsstring \<rightharpoonup> features) \<Rightarrow> profile" where
  "buildProfile favSet feats =
     fold (\<lambda>id p. case feats id of None \<Rightarrow> p | Some f \<Rightarrow> learn f p) favSet empty_profile"

definition profileIsEmpty :: "profile \<Rightarrow> bool" where
  "profileIsEmpty prof \<longleftrightarrow>
     p_tags prof = [] \<and> p_actresses prof = [] \<and> p_maker prof = [] \<and>
     p_series prof = [] \<and> p_label prof = []"

definition scoreItem :: "'f arith \<Rightarrow> features \<Rightarrow> profile \<Rightarrow> 'f" where
  "scoreItem A m prof =
     (let s = f_num A 0;
          s = fold (\<lambda>t s. f_add A s (f_mul A (f_num A (get_or_0 (p_tags prof) t)) (f_dec A 8 1)))
                (tags m) s;
          s = fold (\<lambda>a s. f_add A s (f_mul A (f_num A (get_or_0 (p_actresses prof) a)) (f_dec A 22 1)))
                (actresses m) s;
          s = (if maker m \<noteq> []
               then f_add A s (f_mul A (f_num A (get_or_0 (p_maker prof) (maker m))) (f_dec A 11 1))
               else s);
          s = (if series m \<noteq> []
               then f_add A s (f_mul A (f_num A (get_or_0 (p_series prof) (series m))) (f_dec A 18 1))
               else s);
          s = (if label m \<noteq> []
               then f_add A s (f_mul A (f_num A (get_or_0 (p_label prof) (label m))) (f_dec A 8 1))
               else s)
      in s)"

text \<open>
  \<open>items.map(...)\<close> of \<^verbatim>\<open>recommendOrder\<close>: the score, minus 3.5 for a favorite, plus
  \<open>rand() * 0.05\<close>; one draw per item, in order.
\<close>

fun score_all ::
  "'f arith \<Rightarrow> jsstring list \<Rightarrow> profile \<Rightarrow> item list \<Rightarrow> rng \<Rightarrow> (item \<times> 'f) list \<times> rng" where
  "score_all A favSet prof [] t = ([], t)"
| "score_all A favSet prof (it # its) t =
     (let sc = scoreItem A (meta it) prof;
          sc = (if data_id it \<in> set favSet then f_sub A sc (f_dec A 35 1) else sc);
          (k, t') = rand_next t;
          sc = f_add A sc (f_mul A (f_unit A k) (f_dec A 5 2));
          (rest, t'') = score_all A favSet prof its t'
      in ((it, sc) # rest, t''))"

text \<open>
  \<open>scored.sort((a, b) => b.sc - a.sc)\<close>. \<open>Array.prototype.sort\<close> is stable, and for a
  consistent comparator its result is the one of a stable insertion sort: an element moves
  behind another only where the comparator is positive.
\<close>

definition sorts_after :: "'f arith \<Rightarrow> (item \<times> 'f) \<Rightarrow> (item \<times> 'f) \<Rightarrow> bool" where
  "sorts_after A a b \<longleftrightarrow> f_lt A (f_num A 0) (f_sub A (snd b) (snd a))"

fun insert_scored :: "'f arith \<Rightarrow> (item \<times> 'f) \<Rightarrow> (item \<times> 'f) list \<Rightarrow> (item \<times> 'f) list" where
  "insert_scored A x [] = [x]"
| "insert_scored A x (y # ys) =
     (if sorts_after A x y then y # insert_scored A x ys else x # y # ys)"

definition sort_scored :: "'f arith \<Rightarrow> (item \<times> 'f) list \<Rightarrow> (item \<times> 'f) list" where
  "sort_scored A xs = foldr (insert_scored A) xs []"

text \<open>\<open>Math.min(0.88, 0.25 + 0.06 * favCount)\<close>\<close>

definition relRatio :: "'f arith \<Rightarrow> nat \<Rightarrow> 'f" where
  "relRatio A favCount =
     (let r = f_add A (f_dec A 25 2) (f_mul A (f_dec A 6 2) (f_num A favCount))
      in if f_lt A r (f_dec A 88 2) then r else f_dec A 88 2)"

text \<open>
  \<open>(ri < related.length) && (qi >= random.length || rand() < relRatio)\<close>: the generator is
  drawn only when neither list is exhausted.
\<close>

definition pickRelated ::
  "'f arith \<Rightarrow> 'f \<Rightarrow> item list \<Rightarrow> item list \<Rightarrow> nat \<Rightarrow> nat \<Rightarrow> rng \<Rightarrow> bool \<times> rng" where
  "pickRelated A ratio related random ri qi t =
     (if ri < length related then
        (if qi \<ge> length random then (True, t)
         else (let (k, t') = rand_next t in (f_lt A (f_unit A k) ratio, t')))
      else (False, t))"

text \<open>
  The \<open>while (out.length < items.length)\<close> loop: \<open>n\<close> is \<open>items.length\<close>; reading
  \<open>random[qi]\<close> past the end gives \<open>undefined\<close> and the loop breaks.
\<close>

function interleave ::
  "'f arith \<Rightarrow> 'f \<Rightarrow> nat \<Rightarrow> item list \<Rightarrow> item list \<Rightarrow> nat \<Rightarrow> nat \<Rightarrow> item list \<Rightarrow>
   jsstring set \<Rightarrow> rng \<Rightarrow> item list" where
  "interleave A ratio n related random ri qi out used t =
     (if length out < n then
        (let pr = pickRelated A ratio related random ri qi t; t' = snd pr in
         if fst pr then
           (let cand = related ! ri in
            if data_id cand \<in> used
            then interleave A ratio n related random (ri + 1) qi out used t'
            else interleave A ratio n related random (ri + 1) qi (out @ [cand])
                   (insert (data_id cand) used) t')
         else if qi < length random then
           (let cand = random ! qi in
            if data_id cand \<in> used
            then interleave A ratio n related random ri (qi + 1) out used t'
            else interleave A ratio n related random ri (qi + 1) (out @ [cand])
                   (insert (data_id cand) used) t')
         else out)
      else out)"
  by pat_completeness auto
termination
proof (relation "measure (\<lambda>(A, ratio, n, related, random, ri, qi, out, used, t).
         (length related - ri) + (length random - qi))")
qed (auto simp: pickRelated_def split: if_splits prod.splits)

text \<open>\<open>Array.from(favSet).sort().join(",")\<close>\<close>

fun join_comma :: "jsstring list \<Rightarrow> jsstring" where
  "join_comma [] = []"
| "join_comma [x] = x"
| "join_comma (x # y # ys) = x @ js '','' @ join_comma (y # ys)"

definition seed_string :: "jsstring \<Rightarrow> jsstring list \<Rightarrow> jsstring" where
  "seed_string day favSet = day @ js ''|'' @ join_comma (sort favSet)"

text \<open>
  \<^verbatim>\<open>recommendOrder\<close>. Its inputs besides \<open>items\<close> are what it reads from its
  environment: the day (\<open>new Date().toISOString().slice(0, 10)\<close>), the stored set of
  favorite ids and the stored learned features.
\<close>

definition recommendOrder ::
  "'f arith \<Rightarrow> jsstring \<Rightarrow> jsstring list \<Rightarrow> (jsstring \<rightharpoonup> features) \<Rightarrow> item list \<Rightarrow> item list" where
  "recommendOrder A day favSet feats items =
     (let favCount = length favSet;
          rand = mulberry32 (hash32 (seed_string day favSet))
      in if favCount = 0 then fst (shuffleInPlace items rand)
         else
           (let prof = buildProfile favSet feats in
            if profileIsEmpty prof then fst (shuffleInPlace items rand)
            else
              (let (scored, t1) = score_all A favSet prof items rand;
                   related = map fst (sort_scored A scored);
                   (random, t2) = shuffleInPlace items t1
               in interleave A (relRatio A favCount) (length items) related random 0 0 [] {} t2)))"

section \<open>JavaScript values of the catalog search\<close>

text \<open>
  What \<open>JSON.parse\<close> returns, and \<open>undefined\<close> for what a read finds absent. A number
  is its exact rational value (\<open>NaN\<close> apart; the infinities, which only an overflowing
  literal produces, are left out). An object is the list of its own properties; the code
  reads properties by fixed ASCII names, so a key is an Isabelle \<open>string\<close>.
\<close>

datatype jsval =
    JUndefined
  | JNull
  | JBool bool
  | JNum rat
  | JNaN
  | JStr jsstring
  | JArr "jsval list"
  | JObj "(string \<times> jsval) list"

datatype error = TypeError | ChunkLoadError

fun truthy :: "jsval \<Rightarrow> bool" where
  "truthy JUndefined = False"
| "truthy JNull = False"
| "truthy (JBool b) = b"
| "truthy (JNum r) = (r \<noteq> 0)"
| "truthy JNaN = False"
| "truthy (JStr s) = (s \<noteq> [])"
| "truthy (JArr xs) = True"
| "truthy (JObj kvs) = True"

text \<open>\<open>a || b\<close>\<close>

definition or_else :: "jsval \<Rightarrow> jsval \<Rightarrow> jsval" where
  "or_else a b = (if truthy a then a else b)"

text \<open>Reading a property of \<open>null\<close> or \<open>undefined\<close> throws a \<open>TypeError\<close>.\<close>

definition nullish :: "jsval \<Rightarrow> bool" where
  "nullish v \<longleftrightarrow> v = JNull \<or> v = JUndefined"

text \<open>
  \<open>v.k\<close> for a \<open>v\<close> that is not nullish and one of the names the code reads (none of
  them is a property of a string, a number, a boolean or an array).
\<close>

definition js_prop :: "jsval \<Rightarrow> string \<Rightarrow> jsval" where
  "js_prop v k =
     (case v of
        JObj kvs \<Rightarrow> (case map_of kvs k of Some x \<Rightarrow> x | None \<Rightarrow> JUndefined)
      | _ \<Rightarrow> JUndefined)"

fun digits :: "nat \<Rightarrow> string" where
  "digits n = (if n < 10 then [char_of (48 + n)] else digits (n div 10) @ [char_of (48 + n mod 10)])"

text \<open>
  \<open>v[i]\<close> for a \<open>v\<close> that is not nullish: an element of an array, a one-unit string of a
  string, the property named by the index of an object.
\<close>

definition js_at :: "jsval \<Rightarrow> nat \<Rightarrow> jsval" where
  "js_at v i =
     (case v of
        JArr xs \<Rightarrow> (if i < length xs then xs ! i else JUndefined)
      | JStr s \<Rightarrow> (if i < length s then JStr [s ! i] else JUndefined)
      | JObj kvs \<Rightarrow> js_prop v (digits i)
      | _ \<Rightarrow> JUndefined)"

definition is_array :: "jsval \<Rightarrow> bool" where
  "is_array v \<longleftrightarrow> (case v of JArr xs \<Rightarrow> True | _ \<Rightarrow> False)"

definition is_string :: "jsval \<Rightarrow> bool" where
  "is_string v \<longleftrightarrow> (case v of JStr s \<Rightarrow> True | _ \<Rightarrow> False)"

text \<open>\<open>typeof v === "object"\<close>\<close>

definition typeof_object :: "jsval \<Rightarrow> bool" where
  "typeof_object v \<longleftrightarrow> (case v of JNull \<Rightarrow> True | JArr xs \<Rightarrow> True | JObj kvs \<Rightarrow> True | _ \<Rightarrow> False)"

text \<open>
  The functions of the language's library whose result depends on Unicode tables or on the
  number grammar are parameters: \<open>String.prototype.toLowerCase\<close> and \<open>trim\<close>,
  \<open>toString()\<close> of a value that is not a string, \<open>Number()\<close> of a string, an array or an
  object, and the code points a string spreads into. The last two throw for an object whose
  own \<open>toString\<close> and \<open>valueOf\<close> are not functions.
\<close>

record builtins =
  toLowerCase :: "jsstring \<Rightarrow> jsstring"
  trim :: "jsstring \<Rightarrow> jsstring"
  toStringOf :: "jsval \<Rightarrow> error + jsstring"
  toNumber :: "jsval \<Rightarrow> error + jsval"
  codePoints :: "jsstring \<Rightarrow> jsstring list"

text \<open>\<open>Number(v)\<close>\<close>

definition Number_js :: "builtins \<Rightarrow> jsval \<Rightarrow> error + jsval" where
  "Number_js B v =
     (case v of
        JNum r \<Rightarrow> Inr (JNum r)
      | JNaN \<Rightarrow> Inr JNaN
      | JBool b \<Rightarrow> Inr (JNum (if b then 1 else 0))
      | JNull \<Rightarrow> Inr (JNum 0)
      | JUndefined \<Rightarrow> Inr JNaN
      | _ \<Rightarrow> toNumber B v)"

text \<open>\<open>v.toString()\<close> for a truthy \<open>v\<close> or a string\<close>

definition toString_js :: "builtins \<Rightarrow> jsval \<Rightarrow> error + jsstring" where
  "toString_js B v = (case v of JStr s \<Rightarrow> Inr s | _ \<Rightarrow> toStringOf B v)"

text \<open>
  The conversion of a value to text (string concatenation, a template literal, a DOM
  attribute or text node) cannot throw for a primitive value; for an array or an object it
  throws where the library conversion does.
\<close>

definition text_fails :: "builtins \<Rightarrow> jsval \<Rightarrow> bool" where
  "text_fails B v \<longleftrightarrow> (case v of JArr xs \<Rightarrow> isl (toStringOf B v) | JObj kvs \<Rightarrow> isl (toStringOf B v) | _ \<Rightarrow> False)"

text \<open>
  \<open>...v\<close> inside an array literal: the elements of an array, the code points of a string,
  a \<open>TypeError\<close> for anything else.
\<close>

definition spread :: "builtins \<Rightarrow> jsval \<Rightarrow> error + jsval list" where
  "spread B v =
     (case v of
        JArr xs \<Rightarrow> Inr xs
      | JStr s \<Rightarrow> Inr (map JStr (codePoints B s))
      | _ \<Rightarrow> Inl TypeError)"

text \<open>\<open>xs.map(f)\<close> for a callback that may throw: the first exception ends the call.\<close>

fun map_throwing :: "('a \<Rightarrow> error + 'b) \<Rightarrow> 'a list \<Rightarrow> error + 'b list" where
  "map_throwing f [] = Inr []"
| "map_throwing f (x # xs) =
     (case f x of
        Inl e \<Rightarrow> Inl e
      | Inr y \<Rightarrow> (case map_throwing f xs of Inl e \<Rightarrow> Inl e | Inr ys \<Rightarrow> Inr (y # ys)))"

text \<open>\<open>v.map(f)\<close>: only an array has the method.\<close>

definition array_map :: "(jsval \<Rightarrow> error + jsval) \<Rightarrow> jsval \<Rightarrow> error + jsval" where
  "array_map f v =
     (case v of
        JArr xs \<Rightarrow> (case map_throwing f xs of Inl e \<Rightarrow> Inl e | Inr ys \<Rightarrow> Inr (JArr ys))
      | _ \<Rightarrow> Inl TypeError)"

text \<open>\<open>parts.join(sep)\<close> of strings, and \<open>hay.includes(q)\<close>\<close>

fun join_with :: "jsstring \<Rightarrow> jsstring list \<Rightarrow> jsstring" where
  "join_with sep [] = []"
| "join_with sep [x] = x"
| "join_with sep (x # y # ys) = x @ sep @ join_with sep (y # ys)"

fun starts_with :: "'a list \<Rightarrow> 'a list \<Rightarrow> bool" where
  "starts_with hay [] = True"
| "starts_with [] (c # cs) = False"
| "starts_with (h # hay) (c # cs) = (h = c \<and> starts_with hay cs)"

fun includes_js :: "'a list \<Rightarrow> 'a list \<Rightarrow> bool" where
  "includes_js [] q = (q = [])"
| "includes_js (h # hay) q = (starts_with (h # hay) q \<or> includes_js hay q)"

section \<open>Manifest and entries of the catalog search\<close>

text \<open>\<^verbatim>\<open>norm\<close>: \<open>(s || "").toString().toLowerCase().trim()\<close>\<close>

definition norm_js :: "builtins \<Rightarrow> jsval \<Rightarrow> error + jsstring" where
  "norm_js B s =
     (case toString_js B (or_else s (JStr [])) of
        Inl e \<Rightarrow> Inl e
      | Inr x \<Rightarrow> Inr (trim B (toLowerCase B x)))"

text \<open>The callback \<open>(x) => ({ k0: x[0], k1: x[1] })\<close> of \<^verbatim>\<open>normalizeManifest\<close>\<close>

definition pair_object :: "string \<Rightarrow> string \<Rightarrow> jsval \<Rightarrow> error + jsval" where
  "pair_object k0 k1 x =
     (if nullish x then Inl TypeError else Inr (JObj [(k0, js_at x 0), (k1, js_at x 1)]))"

definition is_v3 :: "jsval \<Rightarrow> bool" where
  "is_v3 m \<longleftrightarrow> truthy m \<and> typeof_object m \<and> js_prop m ''v'' = JNum 3"

definition normalizeManifest :: "jsval \<Rightarrow> error + jsval" where
  "normalizeManifest m =
     (if is_v3 m then
        (case array_map (pair_object ''file'' ''count'') (or_else (js_prop m ''c'') (JArr [])) of
           Inl e \<Rightarrow> Inl e
         | Inr cs \<Rightarrow>
            (case array_map (pair_object ''name'' ''count'') (or_else (js_prop m ''pt'') (JArr [])) of
               Inl e \<Rightarrow> Inl e
             | Inr pts \<Rightarrow>
                Inr (JObj
                  [(''version'', JNum 3),
                   (''generated_at'', js_prop m ''ga''),
                   (''total'', or_else (js_prop m ''t'') (JNum 0)),
                   (''chunk_size'', or_else (js_prop m ''cs'') (JNum 0)),
                   (''chunks'', cs),
                   (''popular_tags'', pts),
                   (''makers'', or_else (js_prop m ''mk'') (JArr [])),
                   (''series'', or_else (js_prop m ''sr'') (JArr []))])))
      else Inr m)"

definition normalizeItem :: "builtins \<Rightarrow> jsval \<Rightarrow> error + jsval" where
  "normalizeItem B it =
     (if is_array it then
        (case Number_js B (or_else (js_at it 10) (JNum 0)) of
           Inl e \<Rightarrow> Inl e
         | Inr n \<Rightarrow>
            Inr (JObj
              [(''id'', js_at it 0),
               (''title'', js_at it 1),
               (''release_date'', js_at it 2),
               (''hero_image'', js_at it 3),
               (''path'', js_at it 4),
               (''tags'', or_else (js_at it 5) (JArr [])),
               (''actresses'', or_else (js_at it 6) (JArr [])),
               (''maker'', or_else (js_at it 7) (JStr [])),
               (''series'', or_else (js_at it 8) (JStr [])),
               (''has_img'', JBool (truthy (js_at it 9))),
               (''img_count'', n),
               (''has_mov'', JBool (truthy (js_at it 11))),
               (''api_rank'', js_at it 12)]))
      else Inr it)"

text \<open>The \<open>state\<close> object of the search page; \<open>tags\<close> is a \<open>Set\<close>, in insertion order.\<close>

record query =
  st_q :: jsstring
  st_maker :: jsstring
  st_series :: jsstring
  st_hasImg :: bool
  st_hasMov :: bool
  st_tags :: "jsstring list"

text \<open>
  The haystack of \<^verbatim>\<open>matchItem\<close>:
  \<open>[it.title, it.maker, it.series, ...(it.tags || []), ...(it.actresses || [])].map(norm).join(" ")\<close>
\<close>

definition haystack :: "builtins \<Rightarrow> jsval \<Rightarrow> error + jsstring" where
  "haystack B it =
     (case spread B (or_else (js_prop it ''tags'') (JArr [])) of
        Inl e \<Rightarrow> Inl e
      | Inr ts \<Rightarrow>
         (case spread B (or_else (js_prop it ''actresses'') (JArr [])) of
            Inl e \<Rightarrow> Inl e
          | Inr acs \<Rightarrow>
             (case map_throwing (norm_js B)
                     ([js_prop it ''title'', js_prop it ''maker'', js_prop it ''series''] @ ts @ acs) of
                Inl e \<Rightarrow> Inl e
              | Inr parts \<Rightarrow> Inr (join_with (js '' '') parts))))"

text \<open>\<open>Array.isArray(it.tags) ? it.tags : []\<close>\<close>

definition array_or_empty :: "jsval \<Rightarrow> jsval list" where
  "array_or_empty v = (case v of JArr xs \<Rightarrow> xs | _ \<Rightarrow> [])"

text \<open>
  \<^verbatim>\<open>matchItem\<close>. The first property read of an item that is \<open>null\<close> throws; a filter
  that is off reads nothing.
\<close>

definition matchItem :: "builtins \<Rightarrow> query \<Rightarrow> jsval \<Rightarrow> error + bool" where
  "matchItem B st it =
     (if st_hasImg st \<and> nullish it then Inl TypeError
      else if st_hasImg st \<and> \<not> truthy (js_prop it ''has_img'') then Inr False
      else if st_hasMov st \<and> nullish it then Inl TypeError
      else if st_hasMov st \<and> \<not> truthy (js_prop it ''has_mov'') then Inr False
      else if st_maker st \<noteq> [] \<and> nullish it then Inl TypeError
      else if st_maker st \<noteq> [] \<and> js_prop it ''maker'' \<noteq> JStr (st_maker st) then Inr False
      else if st_series st \<noteq> [] \<and> nullish it then Inl TypeError
      else if st_series st \<noteq> [] \<and> js_prop it ''series'' \<noteq> JStr (st_series st) then Inr False
      else if st_tags st \<noteq> [] \<and> nullish it then Inl TypeError
      else if st_tags st \<noteq> [] \<and>
              \<not> list_all (\<lambda>t. JStr t \<in> set (array_or_empty (js_prop it ''tags''))) (st_tags st)
           then Inr False
      else
        (case norm_js B (JStr (st_q st)) of
           Inl e \<Rightarrow> Inl e
         | Inr q \<Rightarrow>
            if q = [] then Inr True
            else if nullish it then Inl TypeError
            else (case haystack B it of Inl e \<Rightarrow> Inl e | Inr hay \<Rightarrow> Inr (includes_js hay q))))"

text \<open>
  \<^verbatim>\<open>createCard\<close> builds DOM nodes from the item; the card is modelled by the item it
  shows. It throws for an item that is \<open>null\<close> (\<open>it.path\<close>), for a truthy
  \<open>release_date\<close> that is not a string (\<open>.replace\<close> is not a function), and where one
  of the fields it writes as text cannot be converted: \<open>path\<close>, \<open>title || id\<close>, \<open>id\<close>,
  \<open>hero_image\<close>, \<open>maker\<close>, \<open>series\<close>, and \<open>img_count\<close> when the image badge shows it.
\<close>

definition createCard :: "builtins \<Rightarrow> jsval \<Rightarrow> error + jsval" where
  "createCard B it =
     (if nullish it then Inl TypeError
      else if list_ex (text_fails B)
                [js_prop it ''path'', or_else (js_prop it ''title'') (js_prop it ''id''),
                 js_prop it ''id'', js_prop it ''hero_image'', js_prop it ''maker'']
      then Inl TypeError
      else if truthy (js_prop it ''release_date'') \<and> \<not> is_string (js_prop it ''release_date'')
      then Inl TypeError
      else if truthy (js_prop it ''has_img'') \<and> truthy (js_prop it ''img_count'') \<and>
              text_fails B (js_prop it ''img_count'')
      then Inl TypeError
      else if text_fails B (js_prop it ''series'') then Inl TypeError
      else Inr it)"

section \<open>The chunk scanner of the catalog search\<close>

datatype status = StatusBlank | StatusCounts nat nat jsval | StatusLoadFailed

text \<open>
  The module variables \<open>manifest\<close> (\<open>null\<close> until loaded), \<open>chunks\<close>, \<open>chunkIndex\<close>,
  \<open>loading\<close>, \<open>scanned\<close>, \<open>shown\<close> and \<open>state\<close>, the cards under \<open>elResults\<close> and the
  text of \<open>elStatus\<close>: nothing yet, the line of the three counts (shown, scanned, the
  manifest's total), or the message of a failed load.
\<close>

record scanner =
  manifest :: jsval
  chunks :: "jsval list"
  chunkIndex :: nat
  loading :: bool
  scanned :: nat
  shown :: nat
  query :: query
  results :: "jsval list"
  status :: status

definition initial :: scanner where
  "initial = \<lparr>manifest = JNull, chunks = [], chunkIndex = 0, loading = False, scanned = 0,
     shown = 0,
     query = \<lparr>st_q = [], st_maker = [], st_series = [], st_hasImg = False, st_hasMov = False,
       st_tags = []\<rparr>,
     results = [], status = StatusBlank\<rparr>"

text \<open>\<^verbatim>\<open>updateStatus\<close>: the template literal converts \<open>manifest.total\<close> to text.\<close>

definition updateStatus :: "builtins \<Rightarrow> scanner \<Rightarrow> error + scanner" where
  "updateStatus B s =
     (if \<not> truthy (manifest s) then Inr s
      else if text_fails B (js_prop (manifest s) ''total'') then Inl TypeError
      else Inr (s\<lparr>status := StatusCounts (shown s) (scanned s) (js_prop (manifest s) ''total'')\<rparr>))"

text \<open>
  \<open>manifest.chunks.slice()\<close>: a copy of an array; a string has \<open>slice\<close> too, and then
  \<open>chunks.length\<close> and \<open>chunks[i]\<close> read its units; anything else throws.
\<close>

definition slice_chunks :: "jsval \<Rightarrow> error + jsval list" where
  "slice_chunks v =
     (case v of
        JArr xs \<Rightarrow> Inr xs
      | JStr s \<Rightarrow> Inr (map (\<lambda>c. JStr [c]) s)
      | _ \<Rightarrow> Inl TypeError)"

text \<open>
  \<^verbatim>\<open>clearResults\<close>. An exception of \<open>slice\<close> or of \<^verbatim>\<open>updateStatus\<close> leaves the
  function with the assignments made so far; the state reached and the exception are both
  returned.
\<close>

definition clearResults :: "builtins \<Rightarrow> scanner \<Rightarrow> scanner \<times> error option" where
  "clearResults B s =
     (let s1 = s\<lparr>results := [], chunkIndex := 0, scanned := 0, shown := 0\<rparr> in
      case (if truthy (manifest s1) then slice_chunks (js_prop (manifest s1) ''chunks'') else Inr []) of
        Inl e \<Rightarrow> (s1, Some e)
      | Inr cs \<Rightarrow>
         (case updateStatus B (s1\<lparr>chunks := cs\<rparr>) of
            Inl e \<Rightarrow> (s1\<lparr>chunks := cs\<rparr>, Some e)
          | Inr s2 \<Rightarrow> (s2, None)))"

text \<open>
  \<^verbatim>\<open>loadNextChunk\<close> up to its \<open>await\<close>: the three guards, then the \<open>loading\<close> flag and
  the cursor; the chunk returned is the one whose load is now in flight.
\<close>

definition loadNextChunk_begin :: "scanner \<Rightarrow> scanner \<times> jsval option" where
  "loadNextChunk_begin s =
     (if loading s then (s, None)
      else if \<not> truthy (manifest s) then (s, None)
      else if chunkIndex s \<ge> length (chunks s) then (s, None)
      else (s\<lparr>loading := True, chunkIndex := chunkIndex s + 1\<rparr>, Some (chunks s ! chunkIndex s)))"

text \<open>
  The \<open>for (const raw of items)\<close> loop. \<open>shown\<close> is a module variable, so what was counted
  before an exception stays counted; the fragment is local.
\<close>

fun scan_items :: "builtins \<Rightarrow> jsval list \<Rightarrow> jsval list \<Rightarrow> scanner \<Rightarrow> error option \<times> jsval list \<times> scanner" where
  "scan_items B [] frag s = (None, frag, s)"
| "scan_items B (raw # rest) frag s =
     (case normalizeItem B raw of
        Inl e \<Rightarrow> (Some e, frag, s)
      | Inr it \<Rightarrow>
         (case matchItem B (query s) it of
            Inl e \<Rightarrow> (Some e, frag, s)
          | Inr False \<Rightarrow> scan_items B rest frag s
          | Inr True \<Rightarrow>
             (case createCard B it of
                Inl e \<Rightarrow> (Some e, frag, s)
              | Inr c \<Rightarrow> scan_items B rest (frag @ [c]) (s\<lparr>shown := shown s + 1\<rparr>))))"

text \<open>\<open>Array.isArray(rawItems) ? rawItems : []\<close>\<close>

definition chunk_items :: "jsval \<Rightarrow> jsval list" where
  "chunk_items rawItems = (if is_array rawItems then array_or_empty rawItems else [])"

text \<open>
  \<^verbatim>\<open>loadNextChunk\<close> from its \<open>await\<close> on: \<open>outcome\<close> is what
  \<open>await loadChunkData(chunk)\<close> gave, an exception (fetch, status, base64, gunzip, JSON) or
  the decoded payload; then \<open>try\<close>, \<open>catch\<close> and \<open>finally\<close>.
\<close>

definition loadNextChunk_resume :: "builtins \<Rightarrow> error + jsval \<Rightarrow> scanner \<Rightarrow> scanner" where
  "loadNextChunk_resume B outcome s =
     (let s' =
        (case outcome of
           Inl e \<Rightarrow> s\<lparr>status := StatusLoadFailed\<rparr>
         | Inr rawItems \<Rightarrow>
            (let items = chunk_items rawItems;
                 s1 = s\<lparr>scanned := scanned s + length items\<rparr>;
                 (err, frag, s2) = scan_items B items [] s1
             in case err of
                  Some e \<Rightarrow> s2\<lparr>status := StatusLoadFailed\<rparr>
                | None \<Rightarrow>
                   (let s3 = s2\<lparr>results := results s2 @ frag\<rparr> in
                    case updateStatus B s3 of
                      Inl e \<Rightarrow> s3\<lparr>status := StatusLoadFailed\<rparr>
                    | Inr s4 \<Rightarrow> s4)))
      in s'\<lparr>loading := False\<rparr>)"

text \<open>
  One invocation of \<^verbatim>\<open>loadNextChunk\<close> run to its end with nothing in between;
  \<open>loadChunkData\<close> is the fetch and decode of a chunk descriptor by the environment.
\<close>

definition loadNextChunk :: "builtins \<Rightarrow> (jsval \<Rightarrow> error + jsval) \<Rightarrow> scanner \<Rightarrow> scanner" where
  "loadNextChunk B loadChunkData s =
     (case loadNextChunk_begin s of
        (s', None) \<Rightarrow> s'
      | (s', Some chunk) \<Rightarrow> loadNextChunk_resume B (loadChunkData chunk) s')"

subsection \<open>Interleavings\<close>

text \<open>
  The page is single-threaded, but an invocation of \<^verbatim>\<open>loadNextChunk\<close> is suspended at
  its \<open>await\<close> while other handlers run. An event is one handler run to its end or to its
  \<open>await\<close>: the manifest arriving, a change of the \<open>state\<close> object, \<^verbatim>\<open>clearResults\<close>, a
  call of \<^verbatim>\<open>loadNextChunk\<close>, and the settling of the load in flight with its outcome.
  The second component of the state is the chunk of the suspended invocation.
\<close>

datatype event =
    ManifestLoaded jsval
  | QueryChanged query
  | Reset
  | LoadNext
  | Settle "error + jsval"

fun step :: "builtins \<Rightarrow> event \<Rightarrow> scanner \<times> jsval option \<Rightarrow> scanner \<times> jsval option" where
  "step B (ManifestLoaded m) (s, p) = (s\<lparr>manifest := m\<rparr>, p)"
| "step B (QueryChanged st) (s, p) = (s\<lparr>query := st\<rparr>, p)"
| "step B Reset (s, p) = (fst (clearResults B s), p)"
| "step B LoadNext (s, p) =
     (case loadNextChunk_begin s of (s', None) \<Rightarrow> (s', p) | (s', Some c) \<Rightarrow> (s', Some c))"
| "step B (Settle outcome) (s, None) = (s, None)"
| "step B (Settle outcome) (s, Some c) = (loadNextChunk_resume B outcome s, None)"

definition run :: "builtins \<Rightarrow> event list \<Rightarrow> scanner \<times> jsval option" where
  "run B evs = foldl (\<lambda>\<sigma> e. step B e \<sigma>) (initial, None) evs"

text \<open>
  The entry lists decoded since the last reset, read off the events as the specification
  words it: a reset forgets them, a load in flight that settles with a payload adds the
  entry list of that payload.
\<close>

fun decoded_since_reset ::
  "builtins \<Rightarrow> event list \<Rightarrow> scanner \<times> jsval option \<Rightarrow> jsval list list \<Rightarrow> jsval list list" where
  "decoded_since_reset B [] \<sigma> acc = acc"
| "decoded_since_reset B (e # es) \<sigma> acc =
     decoded_since_reset B es (step B e \<sigma>)
       (case e of
          Reset \<Rightarrow> []
        | Settle (Inr payload) \<Rightarrow> (if snd \<sigma> \<noteq> None then acc @ [chunk_items payload] else acc)
        | _ \<Rightarrow> acc)"

section \<open>The two wire encodings of an entry\<close>

text \<open>
  A catalog entry with the field names of the source
  (\<open>[id,title,release_date,hero_image,path,tags,actresses,maker,series,has_img,img_count,has_mov,api_rank]\<close>)
  and the types of the specification's data model; \<open>api_rank\<close> is optional.
\<close>

record entry =
  e_id :: jsstring
  e_title :: jsstring
  e_release_date :: jsstring
  e_hero_image :: jsstring
  e_path :: jsstring
  e_tags :: "jsstring list"
  e_actresses :: "jsstring list"
  e_maker :: jsstring
  e_series :: jsstring
  e_has_img :: bool
  e_img_count :: nat
  e_has_mov :: bool
  e_api_rank :: "rat option"

text \<open>
  Modelled from the spec: the encoder of the compact transport is not among the sources.
  The array form is the fixed-position array of the thirteen fields; an entry without
  \<open>api_rank\<close> has twelve elements.
\<close>

definition wire_fields :: "entry \<Rightarrow> jsval list" where
  "wire_fields e =
     [JStr (e_id e), JStr (e_title e), JStr (e_release_date e), JStr (e_hero_image e),
      JStr (e_path e), JArr (map JStr (e_tags e)), JArr (map JStr (e_actresses e)),
      JStr (e_maker e), JStr (e_series e), JBool (e_has_img e), JNum (of_nat (e_img_count e)),
      JBool (e_has_mov e)] @
     (case e_api_rank e of None \<Rightarrow> [] | Some r \<Rightarrow> [JNum r])"

definition positionalArrayForm :: "entry \<Rightarrow> jsval" where
  "positionalArrayForm e = JArr (wire_fields e)"

text \<open>
  Modelled from the spec: the encoder of the legacy transport is not among the sources.
  The object form carries the same values under the field names; an entry without
  \<open>api_rank\<close> has no such property.
\<close>

definition objectForm :: "entry \<Rightarrow> jsval" where
  "objectForm e =
     JObj ([(''id'', JStr (e_id e)), (''title'', JStr (e_title e)),
            (''release_date'', JStr (e_release_date e)), (''hero_image'', JStr (e_hero_image e)),
            (''path'', JStr (e_path e)), (''tags'', JArr (map JStr (e_tags e))),
            (''actresses'', JArr (map JStr (e_actresses e))), (''maker'', JStr (e_maker e)),
            (''series'', JStr (e_series e)), (''has_img'', JBool (e_has_img e)),
            (''img_count'', JNum (of_nat (e_img_count e))), (''has_mov'', JBool (e_has_mov e))] @
           (case e_api_rank e of None \<Rightarrow> [] | Some r \<Rightarrow> [(''api_rank'', JNum r)]))"

section \<open>The invariant of the manifest\<close>

text \<open>\<open>total > 0\<close> and \<open>chunks\<close> not empty, read off a manifest value\<close>

definition total_positive :: "jsval \<Rightarrow> bool" where
  "total_positive v \<longleftrightarrow> (case v of JNum r \<Rightarrow> 0 < r | _ \<Rightarrow> False)"

definition nonempty_array :: "jsval \<Rightarrow> bool" where
  "nonempty_array v \<longleftrightarrow> (case v of JArr xs \<Rightarrow> xs \<noteq> [] | _ \<Rightarrow> False)"

definition manifest_invariant :: "jsval \<Rightarrow> bool" where
  "manifest_invariant m \<longleftrightarrow>
     (total_positive (js_prop m ''total'') \<longrightarrow> nonempty_array (js_prop m ''chunks''))"

text \<open>
  The same invariant on the document as it arrives: on \<open>t\<close> and \<open>c\<close> of the compact form,
  on \<open>total\<close> and \<open>chunks\<close> of the legacy form.
\<close>

definition wire_invariant :: "jsval \<Rightarrow> bool" where
  "wire_invariant m \<longleftrightarrow>
     (if is_v3 m then total_positive (js_prop m ''t'') \<longrightarrow> nonempty_array (js_prop m ''c'')
      else manifest_invariant m)"

section \<open>Instances for running the definitions\<close>

text \<open>
  An instance of the library functions for ASCII strings: \<open>A\<close> to \<open>Z\<close> are lowered, spaces
  are trimmed, a string spreads into its units. Conversions of values that are not strings
  are outside this instance and answer with an exception.
\<close>

definition plain_builtins :: builtins where
  "plain_builtins =
     \<lparr>toLowerCase = map (\<lambda>c. if 65 \<le> c \<and> c \<le> 90 then c + 32 else c),
      trim = (\<lambda>s. rev (dropWhile (\<lambda>c. c = 32) (rev (dropWhile (\<lambda>c. c = 32) s)))),
      toStringOf = (\<lambda>v. Inl TypeError),
      toNumber = (\<lambda>v. Inl TypeError),
      codePoints = map (\<lambda>c. [c])\<rparr>"

text \<open>A feed item with an id and no metadata.\<close>

definition bare_item :: "string \<Rightarrow> item" where
  "bare_item i =
     \<lparr>data_id = js i, meta = \<lparr>tags = [], actresses = [], maker = [], series = [], label = []\<rparr>\<rparr>"

text \<open>
  An exact-arithmetic instance of the number operations (rationals for doubles), used to
  run the definitions on concrete inputs.
\<close>

definition rat_arith :: "rat arith" where
  "rat_arith = \<lparr>f_num = of_nat, f_dec = (\<lambda>m e. of_nat m / 10 ^ e), f_add = (+), f_sub = (-),
     f_mul = (*), f_unit = (\<lambda>k. of_nat (unat k) / 4294967296), f_lt = (<)\<rparr>"

subsection \<open>The profile as finite maps\<close>

text \<open>
  What the ranker reads of a \<open>Map\<close> does not depend on the order of its entries. The
  finite maps that the five \<open>Map\<close>s of a profile denote, and \<^verbatim>\<open>addCount\<close> and the
  loop body of \<^verbatim>\<open>buildProfile\<close> on them, carry the proof that the profile does not
  depend on the order in which the favorites are visited.
\<close>

type_synonym profile_maps =
  "(jsstring \<rightharpoonup> nat) \<times> (jsstring \<rightharpoonup> nat) \<times> (jsstring \<rightharpoonup> nat) \<times> (jsstring \<rightharpoonup> nat) \<times>
   (jsstring \<rightharpoonup> nat)"

definition maps_of :: "profile \<Rightarrow> profile_maps" where
  "maps_of p =
     (map_of (p_tags p), map_of (p_actresses p), map_of (p_maker p), map_of (p_series p),
      map_of (p_label p))"

definition addCount_map :: "(jsstring \<rightharpoonup> nat) \<Rightarrow> jsstring \<Rightarrow> (jsstring \<rightharpoonup> nat)" where
  "addCount_map m key =
     (if key = [] then m
      else m(key \<mapsto> (case m key of None \<Rightarrow> 0 | Some c \<Rightarrow> c) + 1))"

fun learn_maps :: "features \<Rightarrow> profile_maps \<Rightarrow> profile_maps" where
  "learn_maps f (ts, acs, mk, sr, lb) =
     (fold (\<lambda>t m. addCount_map m t) (tags f) ts,
      fold (\<lambda>a m. addCount_map m a) (actresses f) acs,
      (if maker f \<noteq> [] then addCount_map mk (maker f) else mk),
      (if series f \<noteq> [] then addCount_map sr (series f) else sr),
      (if label f \<noteq> [] then addCount_map lb (label f) else lb))"

subsection \<open>The loop invariant of the interleaving\<close>

text \<open>
  \<open>placed\<close> holds at the head of the loop: \<open>used\<close> is the set of ids in \<open>out\<close>, no id
  occurs twice in \<open>out\<close>, \<open>out\<close> holds input items only, and every related item below the
  cursor \<open>ri\<close> has its id in \<open>used\<close>. \<open>drained\<close> is what the loop returns with.
\<close>

definition placed :: "item list \<Rightarrow> item list \<Rightarrow> nat \<Rightarrow> item list \<Rightarrow> jsstring set \<Rightarrow> bool" where
  "placed items related ri out used \<longleftrightarrow>
     used = data_id ` set out \<and> distinct (map data_id out) \<and> set out \<subseteq> set items \<and>
     data_id ` set (take ri related) \<subseteq> used"

definition drained :: "nat \<Rightarrow> item list \<Rightarrow> item list \<Rightarrow> item list \<Rightarrow> bool" where
  "drained n items related res \<longleftrightarrow>
     distinct (map data_id res) \<and> set res \<subseteq> set items \<and>
     (n \<le> length res \<or> data_id ` set related \<subseteq> data_id ` set res)"

section \<open>Properties of the generator and the shuffle\<close>

lemma floor_scaled_less: "0 < m \<Longrightarrow> floor_scaled k m < m"
proof -
  assume m: "0 < m"
  have "unat k < 4294967296" using unsigned_less [of k] by simp
  then have "unat k * m < 4294967296 * m" using m by simp
  then show ?thesis
    unfolding floor_scaled_def by (simp add: less_mult_imp_div_less mult.commute)
qed

lemma shuffle_loop_mset:
  "i < length arr \<Longrightarrow> mset (fst (shuffle_loop i arr t)) = mset arr"
proof (induction i arbitrary: arr t)
  case 0
  then show ?case by simp
next
  case (Suc i)
  obtain k t' where kt: "rand_next t = (k, t')" by (cases "rand_next t")
  define j where "j = floor_scaled k (Suc i + 1)"
  have j: "j < length arr" using floor_scaled_less [of "Suc i + 1" k] Suc.prems by (simp add: j_def)
  define arr' where "arr' = arr[Suc i := arr ! j, j := arr ! Suc i]"
  have "mset arr' = mset arr" unfolding arr'_def using mset_swap [OF j Suc.prems] by simp
  moreover have "i < length arr'" using Suc.prems by (simp add: arr'_def)
  ultimately have "mset (fst (shuffle_loop i arr' t')) = mset arr"
    using Suc.IH [of arr' t'] by simp
  then show ?case using kt by (simp add: Let_def j_def arr'_def)
qed

lemma shuffleInPlace_mset: "mset (fst (shuffleInPlace arr t)) = mset arr"
proof (cases arr)
  case Nil
  then show ?thesis by (simp add: shuffleInPlace_def)
next
  case (Cons x xs)
  then show ?thesis unfolding shuffleInPlace_def by (intro shuffle_loop_mset) simp
qed

lemma next_values_closed:
  "next_values n t = map (\<lambda>i. mulberry_mix (t + (i + 1) * 0x6D2B79F5)) [0..<n]"
proof (induction n arbitrary: t)
  case 0
  then show ?case by simp
next
  case (Suc n)
  have "map (\<lambda>i. mulberry_mix (t + (i + 1) * 0x6D2B79F5)) [0..<Suc n] =
        mulberry_mix (t + 0x6D2B79F5) #
        map (\<lambda>i. mulberry_mix (t + 0x6D2B79F5 + (i + 1) * 0x6D2B79F5)) [0..<n]"
    by (simp only: upt_conv_Cons [of 0 "Suc n"] map_Suc_upt [symmetric] list.map map_map o_def)
       (simp add: algebra_simps)
  then show ?case using Suc.IH [of "t + 0x6D2B79F5"] by (simp add: rand_next_def Let_def)
qed

lemma unit_value_floor: "nat \<lfloor>unit_value k * real m\<rfloor> = floor_scaled k m"
proof -
  have "unit_value k * real m = real (unat k * m) / real 4294967296"
    by (simp add: unit_value_def)
  then have "\<lfloor>unit_value k * real m\<rfloor> = int (unat k * m div 4294967296)"
    by (simp only: floor_divide_of_nat_eq)
  then show ?thesis by (simp add: floor_scaled_def)
qed

text \<open>The loop of the code is the pass of the specification over the values it draws.\<close>

lemma shuffle_loop_spec:
  "fst (shuffle_loop i arr t) =
     fold (\<lambda>(i, k). swap_at i (nat \<lfloor>unit_value k * real (i + 1)\<rfloor>))
       (zip (rev [1..<Suc i]) (next_values i t)) arr"
proof (induction i arbitrary: arr t)
  case 0
  then show ?case by simp
next
  case (Suc i)
  obtain k t' where kt: "rand_next t = (k, t')" by (cases "rand_next t")
  have r: "rev [1..<Suc (Suc i)] = Suc i # rev [1..<Suc i]" by simp
  have n: "next_values (Suc i) t = k # next_values i t'" using kt by simp
  have "fst (shuffle_loop (Suc i) arr t) =
      fst (shuffle_loop i (swap_at (Suc i) (floor_scaled k (Suc i + 1)) arr) t')"
    using kt by (simp add: swap_at_def Let_def)
  also have "\<dots> = fold (\<lambda>(i, k). swap_at i (nat \<lfloor>unit_value k * real (i + 1)\<rfloor>))
       (zip (rev [1..<Suc i]) (next_values i t')) (swap_at (Suc i) (floor_scaled k (Suc i + 1)) arr)"
    by (rule Suc.IH)
  also have "\<dots> = fold (\<lambda>(i, k). swap_at i (nat \<lfloor>unit_value k * real (i + 1)\<rfloor>))
       (zip (rev [1..<Suc (Suc i)]) (next_values (Suc i) t)) arr"
    unfolding r n
    by (simp only: zip_Cons_Cons fold_Cons comp_apply prod.case unit_value_floor)
  finally show ?case .
qed

lemma shuffleInPlace_spec:
  "fst (shuffleInPlace arr t) = fisher_yates_spec (next_values (length arr - 1) t) arr"
proof (cases arr)
  case Nil
  then show ?thesis by (simp add: shuffleInPlace_def fisher_yates_spec_def)
next
  case (Cons x xs)
  then have "Suc (length arr - 1) = length arr" by simp
  then show ?thesis
    unfolding shuffleInPlace_def fisher_yates_spec_def
    using shuffle_loop_spec [of "length arr - 1" arr t] by simp
qed

subsection \<open>A run of the generator and of the shuffle\<close>

text \<open>
  The seed string \<open>2026-11-03|w1\<close> hashes to 1359059762; the first four values of the
  generator are 2193219706, 1519824681, 3800154741 and 4060861509 (over \<open>2^32\<close>), which
  pick the positions 2, 1, 2 and 1; five elements come out in the order 1, 4, 5, 2, 3.
\<close>

lemma shuffle_loop_step:
  "rand_next t = (k, t') \<Longrightarrow> floor_scaled k (Suc (Suc i)) = j \<Longrightarrow>
   shuffle_loop (Suc i) arr t = shuffle_loop i (arr[Suc i := arr ! j, j := arr ! Suc i]) t'"
  by simp

lemma hash32_example: "hash32 (js ''2026-11-03|w1'') = 1359059762"
  by (simp add: hash32_def hash32_step_def)

lemma draws_example:
  "rand_next 1359059762 = (2193219706, 3190625575)"
  "rand_next 3190625575 = (1519824681, 5022191388)"
  "rand_next 5022191388 = (3800154741, 6853757201)"
  "rand_next 6853757201 = (4060861509, 8685323014)"
  by (simp_all add: rand_next_def mulberry_mix_def Let_def)

lemma picks_example:
  "floor_scaled 2193219706 (Suc (Suc 3)) = 2"
  "floor_scaled 1519824681 (Suc (Suc 2)) = 1"
  "floor_scaled 3800154741 (Suc (Suc 1)) = 2"
  "floor_scaled 4060861509 (Suc (Suc 0)) = 1"
  by (simp_all add: floor_scaled_def)

lemma swaps_example:
  "[a, b, c, d, e][Suc 3 := [a, b, c, d, e] ! 2, 2 := [a, b, c, d, e] ! Suc 3] = [a, b, e, d, c]"
  "[a, b, e, d, c][Suc 2 := [a, b, e, d, c] ! 1, 1 := [a, b, e, d, c] ! Suc 2] = [a, d, e, b, c]"
  "[a, d, e, b, c][Suc 1 := [a, d, e, b, c] ! 2, 2 := [a, d, e, b, c] ! Suc 1] = [a, d, e, b, c]"
  "[a, d, e, b, c][Suc 0 := [a, d, e, b, c] ! 1, 1 := [a, d, e, b, c] ! Suc 0] = [a, d, e, b, c]"
  by (simp_all add: numeral_eq_Suc)

lemma shuffle_example:
  "fst (shuffleInPlace [a, b, c, d, e] (mulberry32 (hash32 (js ''2026-11-03|w1'')))) =
     [a, d, e, b, c]"
proof -
  have 4: "shuffle_loop (Suc 3) [a, b, c, d, e] 1359059762 =
      shuffle_loop 3 [a, b, e, d, c] 3190625575"
    using shuffle_loop_step [OF draws_example(1) picks_example(1), of "[a, b, c, d, e]"]
    unfolding swaps_example .
  have 3: "shuffle_loop (Suc 2) [a, b, e, d, c] 3190625575 =
      shuffle_loop 2 [a, d, e, b, c] 5022191388"
    using shuffle_loop_step [OF draws_example(2) picks_example(2), of "[a, b, e, d, c]"]
    unfolding swaps_example .
  have 2: "shuffle_loop (Suc 1) [a, d, e, b, c] 5022191388 =
      shuffle_loop 1 [a, d, e, b, c] 6853757201"
    using shuffle_loop_step [OF draws_example(3) picks_example(3), of "[a, d, e, b, c]"]
    unfolding swaps_example .
  have 1: "shuffle_loop (Suc 0) [a, d, e, b, c] 6853757201 =
      shuffle_loop 0 [a, d, e, b, c] 8685323014"
    using shuffle_loop_step [OF draws_example(4) picks_example(4), of "[a, d, e, b, c]"]
    unfolding swaps_example .
  have n: "(3::nat) = Suc 2" "(2::nat) = Suc 1" "(1::nat) = Suc 0"
    "length [a, b, c, d, e] - 1 = Suc 3"
    by simp_all
  have "shuffleInPlace [a, b, c, d, e] 1359059762 =
      shuffle_loop (Suc 3) [a, b, c, d, e] 1359059762"
    unfolding shuffleInPlace_def n(4) ..
  also have "\<dots> = shuffle_loop 3 [a, b, e, d, c] 3190625575" by (rule 4)
  also have "\<dots> = shuffle_loop (Suc 2) [a, b, e, d, c] 3190625575" by (subst n(1)) (rule refl)
  also have "\<dots> = shuffle_loop 2 [a, d, e, b, c] 5022191388" by (rule 3)
  also have "\<dots> = shuffle_loop (Suc 1) [a, d, e, b, c] 5022191388" by (subst n(2)) (rule refl)
  also have "\<dots> = shuffle_loop 1 [a, d, e, b, c] 6853757201" by (rule 2)
  also have "\<dots> = shuffle_loop (Suc 0) [a, d, e, b, c] 6853757201" by (subst n(3)) (rule refl)
  also have "\<dots> = shuffle_loop 0 [a, d, e, b, c] 8685323014" by (rule 1)
  also have "\<dots> = ([a, d, e, b, c], 8685323014)" by (rule shuffle_loop.simps(1))
  finally have "shuffleInPlace [a, b, c, d, e] 1359059762 = ([a, d, e, b, c], 8685323014)" .
  moreover have "mulberry32 (hash32 (js ''2026-11-03|w1'')) = 1359059762"
    unfolding hash32_example by (simp add: mulberry32_def)
  ultimately show ?thesis by simp
qed

text \<open>
  C4. The generator made from a seed string has no state but its counter: its \<open>i\<close>-th
  value is the mix of \<open>hash32 s + (i + 1) \<times> 0x6D2B79F5\<close>, a function of the seed string
  alone, so every run yields the same values; and \<^verbatim>\<open>shuffleInPlace\<close> with that
  generator returns a sequence with the multiset of elements of its input.
\<close>

theorem seeded_random_reproducible:
  "next_values n (mulberry32 (hash32 s)) =
     map (\<lambda>i. mulberry_mix (unat (hash32 s) + (i + 1) * 0x6D2B79F5)) [0..<n] \<and>
   mset (fst (shuffleInPlace xs (mulberry32 (hash32 s)))) = mset xs"
  by (simp add: next_values_closed shuffleInPlace_mset mulberry32_def)

section \<open>Properties of the recommendation order\<close>

lemma score_all_items: "map fst (fst (score_all A favSet prof its t)) = its"
proof (induction its arbitrary: t)
  case Nil
  then show ?case by simp
next
  case (Cons it its)
  obtain k t' where kt: "rand_next t = (k, t')" by (cases "rand_next t")
  obtain rest t'' where r: "score_all A favSet prof its t' = (rest, t'')"
    by (cases "score_all A favSet prof its t'")
  have "map fst rest = its" using Cons.IH [of t'] r by simp
  then show ?case using kt r by (simp add: Let_def)
qed

lemma mset_insert_scored: "mset (insert_scored A x ys) = add_mset x (mset ys)"
  by (induction ys) auto

lemma mset_sort_scored: "mset (sort_scored A xs) = mset xs"
  by (induction xs) (auto simp: sort_scored_def mset_insert_scored)

lemma pickRelated_bound:
  "fst (pickRelated A ratio related random ri qi t) \<Longrightarrow> ri < length related"
  by (auto simp: pickRelated_def split: if_splits)

lemma pickRelated_exhausted:
  "\<not> fst (pickRelated A ratio related random ri qi t) \<Longrightarrow> \<not> qi < length random \<Longrightarrow>
   length related \<le> ri"
  by (auto simp: pickRelated_def split: if_splits)

lemma placed_skip:
  "placed items related ri out used \<Longrightarrow> ri < length related \<Longrightarrow>
   data_id (related ! ri) \<in> used \<Longrightarrow> placed items related (ri + 1) out used"
  by (auto simp: placed_def take_Suc_conv_app_nth)

lemma placed_push_related:
  "placed items related ri out used \<Longrightarrow> ri < length related \<Longrightarrow> set related \<subseteq> set items \<Longrightarrow>
   data_id (related ! ri) \<notin> used \<Longrightarrow>
   placed items related (ri + 1) (out @ [related ! ri]) (insert (data_id (related ! ri)) used)"
  by (auto simp: placed_def take_Suc_conv_app_nth)

lemma placed_push_random:
  "placed items related ri out used \<Longrightarrow> c \<in> set items \<Longrightarrow> data_id c \<notin> used \<Longrightarrow>
   placed items related ri (out @ [c]) (insert (data_id c) used)"
  by (auto simp: placed_def)

lemma interleave_drained:
  "placed items related ri out used \<Longrightarrow> set related \<subseteq> set items \<Longrightarrow>
   set random \<subseteq> set items \<Longrightarrow>
   drained n items related (interleave A ratio n related random ri qi out used t)"
proof (induction A ratio n related random ri qi out used t rule: interleave.induct)
  case (1 A ratio n related random ri qi out used t)
  note pl = "1.prems"(1) and rel = "1.prems"(2) and rnd = "1.prems"(3)
  define pr where "pr = pickRelated A ratio related random ri qi t"
  show ?case
  proof (cases "length out < n")
    case False
    then have "interleave A ratio n related random ri qi out used t = out"
      by (subst interleave.simps) simp
    moreover have "drained n items related out"
      using pl False by (auto simp: placed_def drained_def)
    ultimately show ?thesis by simp
  next
    case lt: True
    show ?thesis
    proof (cases "fst pr")
      case True
      then have ri: "ri < length related" unfolding pr_def by (rule pickRelated_bound)
      show ?thesis
      proof (cases "data_id (related ! ri) \<in> used")
        case in_used: True
        have "drained n items related
                (interleave A ratio n related random (ri + 1) qi out used (snd pr))"
          using "1.IH"(1) [OF lt pr_def refl True refl in_used
              placed_skip [OF pl ri in_used] rel rnd] .
        moreover have "interleave A ratio n related random ri qi out used t =
            interleave A ratio n related random (ri + 1) qi out used (snd pr)"
          using lt True in_used by (subst interleave.simps) (simp add: pr_def Let_def)
        ultimately show ?thesis by simp
      next
        case fresh: False
        have "drained n items related
                (interleave A ratio n related random (ri + 1) qi (out @ [related ! ri])
                   (insert (data_id (related ! ri)) used) (snd pr))"
          using "1.IH"(2) [OF lt pr_def refl True refl fresh
              placed_push_related [OF pl ri rel fresh] rel rnd] .
        moreover have "interleave A ratio n related random ri qi out used t =
            interleave A ratio n related random (ri + 1) qi (out @ [related ! ri])
                   (insert (data_id (related ! ri)) used) (snd pr)"
          using lt True fresh by (subst interleave.simps) (simp add: pr_def Let_def)
        ultimately show ?thesis by simp
      qed
    next
      case notrel: False
      show ?thesis
      proof (cases "qi < length random")
        case qi: True
        then have mem: "random ! qi \<in> set items" using rnd by auto
        show ?thesis
        proof (cases "data_id (random ! qi) \<in> used")
          case in_used: True
          have "drained n items related
                  (interleave A ratio n related random ri (qi + 1) out used (snd pr))"
            using "1.IH"(3) [OF lt pr_def refl notrel qi refl in_used pl rel rnd] .
          moreover have "interleave A ratio n related random ri qi out used t =
              interleave A ratio n related random ri (qi + 1) out used (snd pr)"
            using lt notrel qi in_used by (subst interleave.simps) (simp add: pr_def Let_def)
          ultimately show ?thesis by simp
        next
          case fresh: False
          have "drained n items related
                  (interleave A ratio n related random ri (qi + 1) (out @ [random ! qi])
                     (insert (data_id (random ! qi)) used) (snd pr))"
            using "1.IH"(4) [OF lt pr_def refl notrel qi refl fresh
                placed_push_random [OF pl mem fresh] rel rnd] .
          moreover have "interleave A ratio n related random ri qi out used t =
              interleave A ratio n related random ri (qi + 1) (out @ [random ! qi])
                     (insert (data_id (random ! qi)) used) (snd pr)"
            using lt notrel qi fresh by (subst interleave.simps) (simp add: pr_def Let_def)
          ultimately show ?thesis by simp
        qed
      next
        case noq: False
        have "length related \<le> ri"
          using notrel noq unfolding pr_def by (rule pickRelated_exhausted)
        then have "drained n items related out"
          using pl by (auto simp: placed_def drained_def)
        moreover have "interleave A ratio n related random ri qi out used t = out"
          using lt notrel noq by (subst interleave.simps) (simp add: pr_def Let_def)
        ultimately show ?thesis by simp
      qed
    qed
  qed
qed

lemma drained_permutation:
  assumes c: "drained (length items) items related res"
    and d: "distinct (map data_id items)"
    and rel: "mset related = mset items"
  shows "mset res = mset items"
proof -
  from c have dr: "distinct (map data_id res)" and sub: "set res \<subseteq> set items"
    by (auto simp: drained_def)
  have dres: "distinct res" using dr by (rule distinct_map [THEN iffD1, THEN conjunct1])
  have ditems: "distinct items" using d by (rule distinct_map [THEN iffD1, THEN conjunct1])
  have len: "length items \<le> length res"
  proof -
    from c consider "length items \<le> length res" | "data_id ` set related \<subseteq> data_id ` set res"
      by (auto simp: drained_def)
    then show ?thesis
    proof cases
      case 1
      then show ?thesis .
    next
      case 2
      have "set related = set items" using rel by (rule mset_eq_setD)
      with 2 have "data_id ` set items \<subseteq> data_id ` set res" by simp
      then have "card (data_id ` set items) \<le> card (data_id ` set res)"
        by (intro card_mono) auto
      moreover have "card (data_id ` set items) = length items"
        using d distinct_card [of "map data_id items"] by simp
      moreover have "card (data_id ` set res) = length res"
        using dr distinct_card [of "map data_id res"] by simp
      ultimately show ?thesis by simp
    qed
  qed
  have "card (set items) \<le> card (set res)"
    using len distinct_card [OF dres] distinct_card [OF ditems] by simp
  then have "set res = set items" using sub by (intro card_seteq) auto
  then show ?thesis using dres ditems by (simp add: set_eq_iff_mset_eq_distinct)
qed

lemma recommendOrder_unranked:
  assumes "favSet = [] \<or> profileIsEmpty (buildProfile favSet feats)"
  shows "recommendOrder A day favSet feats items =
         fst (shuffleInPlace items (mulberry32 (hash32 (seed_string day favSet))))"
  using assms by (auto simp: recommendOrder_def Let_def)

lemma recommendOrder_ranked:
  assumes "favSet \<noteq> []" and "\<not> profileIsEmpty (buildProfile favSet feats)"
  shows "\<exists>related. mset related = mset items \<and>
           drained (length items) items related (recommendOrder A day favSet feats items)"
proof -
  define rand where "rand = mulberry32 (hash32 (seed_string day favSet))"
  define prof where "prof = buildProfile favSet feats"
  obtain scored t1 where sc: "score_all A favSet prof items rand = (scored, t1)"
    by (cases "score_all A favSet prof items rand")
  obtain random t2 where rn: "shuffleInPlace items t1 = (random, t2)"
    by (cases "shuffleInPlace items t1")
  define related where "related = map fst (sort_scored A scored)"
  have "map fst scored = items" using score_all_items [of A favSet prof items rand] sc by simp
  then have "mset (map fst scored) = mset items" by simp
  then have rel: "mset related = mset items"
    unfolding related_def by (simp add: mset_sort_scored)
  have rnd: "mset random = mset items" using shuffleInPlace_mset [of items t1] rn by simp
  have "placed items related 0 [] {}" by (simp add: placed_def)
  then have "drained (length items) items related
      (interleave A (relRatio A (length favSet)) (length items) related random 0 0 [] {} t2)"
    using mset_eq_setD [OF rel] mset_eq_setD [OF rnd] by (intro interleave_drained) simp_all
  moreover have "recommendOrder A day favSet feats items =
      interleave A (relRatio A (length favSet)) (length items) related random 0 0 [] {} t2"
    using assms sc rn by (simp add: recommendOrder_def Let_def rand_def prof_def related_def)
  ultimately show ?thesis using rel by auto
qed

lemma recommendOrder_mset:
  assumes d: "distinct (map data_id items)"
  shows "mset (recommendOrder A day favSet feats items) = mset items"
proof (cases "favSet = [] \<or> profileIsEmpty (buildProfile favSet feats)")
  case True
  show ?thesis unfolding recommendOrder_unranked [OF True] by (rule shuffleInPlace_mset)
next
  case False
  then obtain related where rel: "mset related = mset items"
    and dr: "drained (length items) items related (recommendOrder A day favSet feats items)"
    using recommendOrder_ranked [of favSet feats items A day] by auto
  show ?thesis using dr d rel by (rule drained_permutation)
qed

text \<open>
  Whatever the input, the ranked order holds one item for each different id of the input:
  of the items that share an id, one is kept.
\<close>

lemma drained_length:
  assumes c: "drained (length items) items related res" and rel: "mset related = mset items"
  shows "length res = card (data_id ` set items)"
proof -
  from c have dr: "distinct (map data_id res)" and sub: "set res \<subseteq> set items"
    by (auto simp: drained_def)
  have lr: "length res = card (data_id ` set res)"
    using distinct_card [OF dr] by simp
  have le: "card (data_id ` set res) \<le> card (data_id ` set items)"
    using sub by (intro card_mono) auto
  have li: "card (data_id ` set items) \<le> length items"
    using card_image_le [of "set items" data_id] card_length [of items] by simp
  from c consider "length items \<le> length res" | "data_id ` set related \<subseteq> data_id ` set res"
    by (auto simp: drained_def)
  then show ?thesis
  proof cases
    case 1
    then show ?thesis using lr le li by simp
  next
    case 2
    have "set related = set items" using rel by (rule mset_eq_setD)
    with 2 have "data_id ` set items \<subseteq> data_id ` set res" by simp
    then have "card (data_id ` set items) \<le> card (data_id ` set res)"
      by (intro card_mono) auto
    then show ?thesis using lr le by simp
  qed
qed

lemma recommendOrder_ranked_length:
  assumes "favSet \<noteq> []" and "\<not> profileIsEmpty (buildProfile favSet feats)"
  shows "length (recommendOrder A day favSet feats items) = card (data_id ` set items)"
proof -
  obtain related where rel: "mset related = mset items"
    and dr: "drained (length items) items related (recommendOrder A day favSet feats items)"
    using recommendOrder_ranked [OF assms, of items A day] by auto
  show ?thesis using dr rel by (rule drained_length)
qed

text \<open>
  Whatever the input, the interleaving never places an id twice and places input items
  only; an input in which an id occurs twice therefore comes back shorter.
\<close>

lemma interleave_distinct_ids:
  assumes "set related \<subseteq> set items" and "set random \<subseteq> set items"
  shows "distinct (map data_id (interleave A ratio n related random 0 0 [] {} t)) \<and>
         set (interleave A ratio n related random 0 0 [] {} t) \<subseteq> set items"
proof -
  have "placed items related 0 [] {}" by (simp add: placed_def)
  then have "drained n items related (interleave A ratio n related random 0 0 [] {} t)"
    using assms by (rule interleave_drained)
  then show ?thesis by (simp add: drained_def)
qed

text \<open>
  C1, as the claim states it for every input list, fails. An item without \<open>data-id\<close> has the
  id \<open>""\<close>. Of three items, two of them without id, the ranked order (one favorite with
  learned features) returns two; and without favorites the shuffle returns all three, two
  of them with the same id.
\<close>

theorem recommendOrder_permutation_counterexample:
  "length (recommendOrder rat_arith (js ''2026-11-03'') [js ''w1'']
     (map_of [(js ''w1'',
        \<lparr>tags = [], actresses = [js ''P''], maker = [], series = [], label = []\<rparr>)])
     [bare_item ''a1'', bare_item [],
      \<lparr>data_id = [], meta = \<lparr>tags = [js ''vr''], actresses = [], maker = [], series = [],
         label = []\<rparr>\<rparr>]) = 2 \<and>
   \<not> distinct (map data_id (recommendOrder rat_arith (js ''2026-11-03'') [] (map_of [])
     [bare_item ''a1'', bare_item [],
      \<lparr>data_id = [], meta = \<lparr>tags = [js ''vr''], actresses = [], maker = [], series = [],
         label = []\<rparr>\<rparr>]))"
proof
  let ?items = "[bare_item ''a1'', bare_item [],
      \<lparr>data_id = [], meta = \<lparr>tags = [js ''vr''], actresses = [], maker = [], series = [],
         label = []\<rparr>\<rparr>]"
  let ?feats = "map_of [(js ''w1'',
        \<lparr>tags = [], actresses = [js ''P''], maker = [], series = [], label = []\<rparr>)]"
  have f: "[js ''w1''] \<noteq> []" by simp
  have p: "\<not> profileIsEmpty (buildProfile [js ''w1''] ?feats)"
    by (simp add: profileIsEmpty_def buildProfile_def learn_def addCount_def empty_profile_def)
  have "card (data_id ` set ?items) = 2" by (simp add: bare_item_def)
  then show "length (recommendOrder rat_arith (js ''2026-11-03'') [js ''w1''] ?feats ?items) = 2"
    using recommendOrder_ranked_length [OF f p, of rat_arith "js ''2026-11-03''" ?items] by simp
  have "mset (recommendOrder rat_arith (js ''2026-11-03'') [] (map_of []) ?items) = mset ?items"
    unfolding recommendOrder_unranked [OF disjI1 [OF refl]] by (rule shuffleInPlace_mset)
  then have "mset (map data_id (recommendOrder rat_arith (js ''2026-11-03'') [] (map_of []) ?items)) =
      mset (map data_id ?items)"
    by simp
  then have "distinct (map data_id (recommendOrder rat_arith (js ''2026-11-03'') [] (map_of []) ?items)) =
      distinct (map data_id ?items)"
    by (rule mset_eq_imp_distinct_iff)
  then show "\<not> distinct (map data_id (recommendOrder rat_arith (js ''2026-11-03'') [] (map_of [])
      ?items))"
    by (simp add: bare_item_def)
qed

text \<open>
  C1, amended. For every input list of items whose ids are pairwise different, every
  favorite set and every stored profile, \<^verbatim>\<open>recommendOrder\<close> returns a permutation of
  its input: no item is lost or duplicated, the output has no duplicate id and has the
  length of the input.
\<close>

theorem recommendOrder_permutation:
  assumes "distinct (map data_id items)"
  shows "mset (recommendOrder A day favSet feats items) = mset items \<and>
         distinct (map data_id (recommendOrder A day favSet feats items)) \<and>
         length (recommendOrder A day favSet feats items) = length items"
proof -
  have m: "mset (recommendOrder A day favSet feats items) = mset items"
    using assms by (rule recommendOrder_mset)
  have "mset (map data_id (recommendOrder A day favSet feats items)) = mset (map data_id items)"
    using m by simp
  then have "distinct (map data_id (recommendOrder A day favSet feats items))"
    using assms mset_eq_imp_distinct_iff by blast
  then show ?thesis using m mset_eq_length [OF m] by simp
qed

theorem recommendOrder_permutation_witness:
  "distinct (map data_id
     [\<lparr>data_id = js ''a1'', meta = \<lparr>tags = [js ''vr''], actresses = [js ''P''], maker = js ''m'',
         series = [], label = []\<rparr>\<rparr>,
      \<lparr>data_id = js ''b2'', meta = \<lparr>tags = [], actresses = [], maker = [], series = [],
         label = []\<rparr>\<rparr>]) \<and>
   length (recommendOrder rat_arith (js ''2026-11-03'') [js ''w1'']
     [js ''w1'' \<mapsto> \<lparr>tags = [], actresses = [js ''P''], maker = [], series = [], label = []\<rparr>]
     [\<lparr>data_id = js ''a1'', meta = \<lparr>tags = [js ''vr''], actresses = [js ''P''], maker = js ''m'',
         series = [], label = []\<rparr>\<rparr>,
      \<lparr>data_id = js ''b2'', meta = \<lparr>tags = [], actresses = [], maker = [], series = [],
         label = []\<rparr>\<rparr>]) = 2"
  using recommendOrder_permutation [of
     "[\<lparr>data_id = js ''a1'', meta = \<lparr>tags = [js ''vr''], actresses = [js ''P''], maker = js ''m'',
         series = [], label = []\<rparr>\<rparr>,
      \<lparr>data_id = js ''b2'', meta = \<lparr>tags = [], actresses = [], maker = [], series = [],
         label = []\<rparr>\<rparr>]"
     rat_arith "js ''2026-11-03''" "[js ''w1'']"
     "[js ''w1'' \<mapsto> \<lparr>tags = [], actresses = [js ''P''], maker = [], series = [], label = []\<rparr>]"]
  by simp

text \<open>
  C2. When the favorite set is empty, or every one of the five maps of the profile built
  from it is empty, \<^verbatim>\<open>recommendOrder\<close> returns the shuffle of the specification
  applied to (a copy of) its input and nothing else: the Fisher-Yates pass from the last
  position down to 1, over the values drawn from the generator seeded with the hash of the
  day, a bar and the sorted, comma-joined favorite ids.
\<close>

theorem recommendOrder_without_signal:
  assumes "favSet = [] \<or>
           (p_tags (buildProfile favSet feats) = [] \<and>
            p_actresses (buildProfile favSet feats) = [] \<and>
            p_maker (buildProfile favSet feats) = [] \<and>
            p_series (buildProfile favSet feats) = [] \<and>
            p_label (buildProfile favSet feats) = [])"
  shows "recommendOrder A day favSet feats items =
         fisher_yates_spec
           (next_values (length items - 1)
              (mulberry32 (hash32 (day @ js ''|'' @ join_comma (sort favSet)))))
           items"
proof -
  have "favSet = [] \<or> profileIsEmpty (buildProfile favSet feats)"
    using assms by (auto simp: profileIsEmpty_def)
  then have "recommendOrder A day favSet feats items =
      fst (shuffleInPlace items (mulberry32 (hash32 (seed_string day favSet))))"
    by (rule recommendOrder_unranked)
  then show ?thesis by (simp only: shuffleInPlace_spec seed_string_def)
qed

theorem recommendOrder_without_signal_witness:
  "p_tags (buildProfile [js ''w1''] Map.empty) = [] \<and>
   p_actresses (buildProfile [js ''w1''] Map.empty) = [] \<and>
   p_maker (buildProfile [js ''w1''] Map.empty) = [] \<and>
   p_series (buildProfile [js ''w1''] Map.empty) = [] \<and>
   p_label (buildProfile [js ''w1''] Map.empty) = [] \<and>
   recommendOrder rat_arith (js ''2026-11-03'') [js ''w1''] Map.empty
     [bare_item ''i1'', bare_item ''i2'', bare_item ''i3'', bare_item ''i4'', bare_item ''i5''] =
   [bare_item ''i1'', bare_item ''i4'', bare_item ''i5'', bare_item ''i2'', bare_item ''i3'']"
proof -
  let ?items = "[bare_item ''i1'', bare_item ''i2'', bare_item ''i3'', bare_item ''i4'',
    bare_item ''i5'']"
  have e: "buildProfile [js ''w1''] Map.empty = empty_profile"
    by (simp add: buildProfile_def)
  have h: "p_tags (buildProfile [js ''w1''] Map.empty) = [] \<and>
      p_actresses (buildProfile [js ''w1''] Map.empty) = [] \<and>
      p_maker (buildProfile [js ''w1''] Map.empty) = [] \<and>
      p_series (buildProfile [js ''w1''] Map.empty) = [] \<and>
      p_label (buildProfile [js ''w1''] Map.empty) = []"
    unfolding e by (simp add: empty_profile_def)
  have s: "js ''2026-11-03'' @ js ''|'' @ join_comma (sort [js ''w1'']) = js ''2026-11-03|w1''"
    by simp
  have "recommendOrder rat_arith (js ''2026-11-03'') [js ''w1''] Map.empty ?items =
      fisher_yates_spec
        (next_values (length ?items - 1) (mulberry32 (hash32 (js ''2026-11-03|w1'')))) ?items"
    using recommendOrder_without_signal [OF disjI2 [OF h], of rat_arith "js ''2026-11-03''" ?items]
    unfolding s .
  also have "\<dots> = fst (shuffleInPlace ?items (mulberry32 (hash32 (js ''2026-11-03|w1''))))"
    by (rule shuffleInPlace_spec [symmetric])
  also have "\<dots> = [bare_item ''i1'', bare_item ''i4'', bare_item ''i5'', bare_item ''i2'',
      bare_item ''i3'']"
    by (rule shuffle_example)
  finally have r: "recommendOrder rat_arith (js ''2026-11-03'') [js ''w1''] Map.empty ?items =
      [bare_item ''i1'', bare_item ''i4'', bare_item ''i5'', bare_item ''i2'', bare_item ''i3'']" .
  show ?thesis by (intro conjI h [THEN conjunct1] h [THEN conjunct2, THEN conjunct1]
        h [THEN conjunct2, THEN conjunct2, THEN conjunct1]
        h [THEN conjunct2, THEN conjunct2, THEN conjunct2, THEN conjunct1]
        h [THEN conjunct2, THEN conjunct2, THEN conjunct2, THEN conjunct2] r)
qed

lemma map_of_map_set: "map_of (map_set k v m) = (map_of m)(k \<mapsto> v)"
  by (induction m) (auto simp: fun_upd_twist)

lemma map_of_addCount: "map_of (addCount m key) = addCount_map (map_of m) key"
  by (simp add: addCount_def addCount_map_def get_or_0_def map_of_map_set)

lemma map_of_fold_addCount:
  "map_of (fold (\<lambda>t m. addCount m t) ts m) = fold (\<lambda>t m. addCount_map m t) ts (map_of m)"
  by (induction ts arbitrary: m) (simp_all add: map_of_addCount)

lemma maps_of_learn: "maps_of (learn f p) = learn_maps f (maps_of p)"
  by (simp add: maps_of_def learn_def map_of_fold_addCount map_of_addCount)

lemma addCount_map_commute:
  "addCount_map (addCount_map m a) b = addCount_map (addCount_map m b) a"
  by (cases "a = b") (auto simp: addCount_map_def fun_upd_twist)

lemma fold_addCount_map_commute:
  "fold (\<lambda>t m. addCount_map m t) xs (fold (\<lambda>t m. addCount_map m t) ys m) =
   fold (\<lambda>t m. addCount_map m t) ys (fold (\<lambda>t m. addCount_map m t) xs m)"
proof -
  have "fold (\<lambda>t m. addCount_map m t) (ys @ xs) m = fold (\<lambda>t m. addCount_map m t) (xs @ ys) m"
    by (rule fold_permuted_eq [where P = "\<lambda>_. True"]) (simp_all add: addCount_map_commute)
  then show ?thesis by simp
qed

lemma learn_maps_commute: "learn_maps f (learn_maps g v) = learn_maps g (learn_maps f v)"
  by (cases v)
     (simp add: fold_addCount_map_commute [of "tags f"] fold_addCount_map_commute [of "actresses f"]
        addCount_map_commute [of _ "maker f"] addCount_map_commute [of _ "series f"]
        addCount_map_commute [of _ "label f"])

lemma maps_of_fold_learn:
  "maps_of (fold (\<lambda>id p. case feats id of None \<Rightarrow> p | Some f \<Rightarrow> learn f p) favs p) =
   fold (\<lambda>id v. case feats id of None \<Rightarrow> v | Some f \<Rightarrow> learn_maps f v) favs (maps_of p)"
  by (induction favs arbitrary: p) (simp_all add: maps_of_learn split: option.splits)

lemma buildProfile_permuted:
  assumes "mset favs1 = mset favs2"
  shows "maps_of (buildProfile favs1 feats) = maps_of (buildProfile favs2 feats)"
  unfolding buildProfile_def maps_of_fold_learn
  by (rule fold_permuted_eq [where P = "\<lambda>_. True", OF assms])
     (auto simp: learn_maps_commute split: option.splits)

lemma map_of_eq_Nil: "map_of m = map_of m' \<Longrightarrow> m = [] \<longleftrightarrow> m' = []"
  by (cases m; cases m') (auto simp: fun_eq_iff split: if_splits)

lemma profileIsEmpty_maps: "maps_of p = maps_of q \<Longrightarrow> profileIsEmpty p = profileIsEmpty q"
  unfolding maps_of_def profileIsEmpty_def
  using map_of_eq_Nil [of "p_tags p" "p_tags q"] map_of_eq_Nil [of "p_actresses p" "p_actresses q"]
    map_of_eq_Nil [of "p_maker p" "p_maker q"] map_of_eq_Nil [of "p_series p" "p_series q"]
    map_of_eq_Nil [of "p_label p" "p_label q"]
  by simp

lemma scoreItem_maps:
  assumes "maps_of p = maps_of q"
  shows "scoreItem A m p = scoreItem A m q"
proof -
  have "get_or_0 (p_tags p) = get_or_0 (p_tags q)"
    "get_or_0 (p_actresses p) = get_or_0 (p_actresses q)"
    "get_or_0 (p_maker p) = get_or_0 (p_maker q)"
    "get_or_0 (p_series p) = get_or_0 (p_series q)"
    "get_or_0 (p_label p) = get_or_0 (p_label q)"
    using assms by (simp_all add: maps_of_def get_or_0_def fun_eq_iff)
  then show ?thesis unfolding scoreItem_def by (simp only:)
qed

lemma seed_string_permuted:
  assumes "mset favs1 = mset favs2"
  shows "seed_string day favs1 = seed_string day favs2"
proof -
  have "sort favs1 = sort favs2"
    by (rule properties_for_sort) (simp_all add: assms)
  then show ?thesis by (simp add: seed_string_def)
qed

lemma score_all_maps:
  "set favs1 = set favs2 \<Longrightarrow> maps_of p = maps_of q \<Longrightarrow>
   score_all A favs1 p its t = score_all A favs2 q its t"
  by (induction its arbitrary: t)
     (simp_all add: Let_def scoreItem_maps [of p q] split: prod.splits)

lemma recommendOrder_permuted:
  assumes m: "mset favs1 = mset favs2"
  shows "recommendOrder A day favs1 feats items = recommendOrder A day favs2 feats items"
proof -
  have l: "length favs1 = length favs2" using m by (rule mset_eq_length)
  have s: "set favs1 = set favs2" using m by (rule mset_eq_setD)
  have v: "maps_of (buildProfile favs1 feats) = maps_of (buildProfile favs2 feats)"
    using m by (rule buildProfile_permuted)
  show ?thesis
    unfolding recommendOrder_def Let_def
    by (simp only: l score_all_maps [OF s v] profileIsEmpty_maps [OF v]
          seed_string_permuted [OF m, of day])
qed

text \<open>
  C3. The order is a function of the day, the set of favorite ids, the stored features and
  the input list: two runs that read the same favorite set, in whatever insertion order
  the two \<open>Set\<close>s hold it, seed the generator with the same string and return the same
  order.
\<close>

theorem recommendOrder_deterministic:
  assumes "distinct favs1" and "distinct favs2" and "set favs1 = set favs2"
  shows "seed_string day favs1 = seed_string day favs2 \<and>
         recommendOrder A day favs1 feats items = recommendOrder A day favs2 feats items"
proof -
  have m: "mset favs1 = mset favs2"
    using assms by (simp add: set_eq_iff_mset_eq_distinct)
  show ?thesis
    by (intro conjI seed_string_permuted [OF m] recommendOrder_permuted [OF m])
qed

theorem recommendOrder_deterministic_witness:
  "distinct [js ''w1'', js ''w2''] \<and> distinct [js ''w2'', js ''w1''] \<and>
   set [js ''w1'', js ''w2''] = set [js ''w2'', js ''w1''] \<and>
   recommendOrder rat_arith (js ''2026-11-03'') [js ''w1'', js ''w2'']
     [js ''w1'' \<mapsto> \<lparr>tags = [], actresses = [js ''P''], maker = [], series = [], label = []\<rparr>]
     [\<lparr>data_id = js ''a1'', meta = \<lparr>tags = [], actresses = [js ''P''], maker = [], series = [],
        label = []\<rparr>\<rparr>,
      \<lparr>data_id = js ''w1'', meta = \<lparr>tags = [], actresses = [], maker = [], series = [],
        label = []\<rparr>\<rparr>] =
   recommendOrder rat_arith (js ''2026-11-03'') [js ''w2'', js ''w1'']
     [js ''w1'' \<mapsto> \<lparr>tags = [], actresses = [js ''P''], maker = [], series = [], label = []\<rparr>]
     [\<lparr>data_id = js ''a1'', meta = \<lparr>tags = [], actresses = [js ''P''], maker = [], series = [],
        label = []\<rparr>\<rparr>,
      \<lparr>data_id = js ''w1'', meta = \<lparr>tags = [], actresses = [], maker = [], series = [],
        label = []\<rparr>\<rparr>]"
proof -
  have h: "distinct [js ''w1'', js ''w2'']" "distinct [js ''w2'', js ''w1'']"
    "set [js ''w1'', js ''w2''] = set [js ''w2'', js ''w1'']"
    by auto
  show ?thesis
    by (intro conjI h recommendOrder_deterministic [OF h, THEN conjunct2])
qed

section \<open>Properties of the normalizers\<close>

lemma normalizeItem_objectForm: "normalizeItem B (objectForm e) = Inr (objectForm e)"
  by (simp add: normalizeItem_def objectForm_def is_array_def)

lemma normalizeItem_positionalArrayForm:
  "\<exists>a. normalizeItem B (positionalArrayForm e) = Inr a \<and>
       (\<forall>k. js_prop a k = js_prop (objectForm e) k)"
  by (cases "e_api_rank e")
     (auto simp: normalizeItem_def positionalArrayForm_def objectForm_def wire_fields_def
       is_array_def js_at_def or_else_def Number_js_def js_prop_def)

lemma normalizeItem_defaults:
  assumes "normalizeItem B (JArr xs) = Inr c"
  shows "length xs \<le> 5 \<longrightarrow> js_prop c ''tags'' = JArr []"
    and "length xs \<le> 6 \<longrightarrow> js_prop c ''actresses'' = JArr []"
    and "length xs \<le> 7 \<longrightarrow> js_prop c ''maker'' = JStr []"
    and "length xs \<le> 8 \<longrightarrow> js_prop c ''series'' = JStr []"
    and "length xs \<le> 9 \<longrightarrow> js_prop c ''has_img'' = JBool False"
    and "length xs \<le> 10 \<longrightarrow> js_prop c ''img_count'' = JNum 0"
    and "length xs \<le> 11 \<longrightarrow> js_prop c ''has_mov'' = JBool False"
    and "length xs \<le> 12 \<longrightarrow> js_prop c ''api_rank'' = JUndefined"
  using assms
  by (auto simp: normalizeItem_def is_array_def js_at_def or_else_def Number_js_def js_prop_def
      split: sum.splits)

text \<open>
  C5. For every catalog entry, \<^verbatim>\<open>normalizeItem\<close> of its positional array and
  \<^verbatim>\<open>normalizeItem\<close> of its object with named fields both return, and the two results
  read the same under every property name: they are the same logical entry. And whenever
  \<^verbatim>\<open>normalizeItem\<close> returns for an array, each field whose position lies beyond the end
  of the array reads as its default: empty list, empty string, \<open>false\<close>, zero, and no
  \<open>api_rank\<close>.
\<close>

theorem normalizeItem_roundtrip:
  "(\<exists>a b. normalizeItem B (positionalArrayForm e) = Inr a \<and>
          normalizeItem B (objectForm e) = Inr b \<and>
          (\<forall>k. js_prop a k = js_prop b k)) \<and>
   (normalizeItem B (JArr xs) = Inr c \<longrightarrow>
      (length xs \<le> 5 \<longrightarrow> js_prop c ''tags'' = JArr []) \<and>
      (length xs \<le> 6 \<longrightarrow> js_prop c ''actresses'' = JArr []) \<and>
      (length xs \<le> 7 \<longrightarrow> js_prop c ''maker'' = JStr []) \<and>
      (length xs \<le> 8 \<longrightarrow> js_prop c ''series'' = JStr []) \<and>
      (length xs \<le> 9 \<longrightarrow> js_prop c ''has_img'' = JBool False) \<and>
      (length xs \<le> 10 \<longrightarrow> js_prop c ''img_count'' = JNum 0) \<and>
      (length xs \<le> 11 \<longrightarrow> js_prop c ''has_mov'' = JBool False) \<and>
      (length xs \<le> 12 \<longrightarrow> js_prop c ''api_rank'' = JUndefined))"
proof (intro conjI impI)
  show "\<exists>a b. normalizeItem B (positionalArrayForm e) = Inr a \<and>
          normalizeItem B (objectForm e) = Inr b \<and> (\<forall>k. js_prop a k = js_prop b k)"
    using normalizeItem_positionalArrayForm [of B e] normalizeItem_objectForm [of B e] by blast
qed (use normalizeItem_defaults [of B xs c] in blast)+

theorem normalizeItem_roundtrip_witness:
  "normalizeItem plain_builtins
     (JArr [JStr (js ''w1''), JStr (js ''T''), JStr (js ''2024-01-01''), JStr [], JStr (js ''works/w1/'')]) =
   Inr (JObj [(''id'', JStr (js ''w1'')), (''title'', JStr (js ''T'')),
     (''release_date'', JStr (js ''2024-01-01'')), (''hero_image'', JStr []),
     (''path'', JStr (js ''works/w1/'')), (''tags'', JArr []), (''actresses'', JArr []),
     (''maker'', JStr []), (''series'', JStr []), (''has_img'', JBool False),
     (''img_count'', JNum 0), (''has_mov'', JBool False), (''api_rank'', JUndefined)]) \<and>
   length [JStr (js ''w1''), JStr (js ''T''), JStr (js ''2024-01-01''), JStr [], JStr (js ''works/w1/'')] \<le> 5 \<and>
   js_prop (JObj [(''id'', JStr (js ''w1'')), (''title'', JStr (js ''T'')),
     (''release_date'', JStr (js ''2024-01-01'')), (''hero_image'', JStr []),
     (''path'', JStr (js ''works/w1/'')), (''tags'', JArr []), (''actresses'', JArr []),
     (''maker'', JStr []), (''series'', JStr []), (''has_img'', JBool False),
     (''img_count'', JNum 0), (''has_mov'', JBool False), (''api_rank'', JUndefined)]) ''has_mov'' =
   JBool False"
proof -
  let ?xs = "[JStr (js ''w1''), JStr (js ''T''), JStr (js ''2024-01-01''), JStr [], JStr (js ''works/w1/'')]"
  let ?c = "JObj [(''id'', JStr (js ''w1'')), (''title'', JStr (js ''T'')),
     (''release_date'', JStr (js ''2024-01-01'')), (''hero_image'', JStr []),
     (''path'', JStr (js ''works/w1/'')), (''tags'', JArr []), (''actresses'', JArr []),
     (''maker'', JStr []), (''series'', JStr []), (''has_img'', JBool False),
     (''img_count'', JNum 0), (''has_mov'', JBool False), (''api_rank'', JUndefined)]"
  have h: "normalizeItem plain_builtins (JArr ?xs) = Inr ?c"
    by (simp add: normalizeItem_def is_array_def js_at_def or_else_def Number_js_def)
  have l: "length ?xs \<le> 11" "length ?xs \<le> 5" by simp_all
  have "js_prop ?c ''has_mov'' = JBool False"
    using normalizeItem_roundtrip [of plain_builtins
        "\<lparr>e_id = js ''w1'', e_title = js ''T'', e_release_date = js ''2024-01-01'',
          e_hero_image = [], e_path = js ''works/w1/'', e_tags = [], e_actresses = [],
          e_maker = [], e_series = [], e_has_img = False, e_img_count = 0, e_has_mov = False,
          e_api_rank = None\<rparr>" ?xs ?c] h l(1)
    by blast
  then show ?thesis using h l(2) by blast
qed

lemma map_throwing_length: "map_throwing f xs = Inr ys \<Longrightarrow> length ys = length xs"
  by (induction xs arbitrary: ys) (auto split: sum.splits)

lemma array_map_nonempty:
  "array_map f v = Inr w \<Longrightarrow> nonempty_array w = nonempty_array v"
  by (cases v)
     (auto simp: array_map_def nonempty_array_def split: sum.splits dest!: map_throwing_length)

lemma total_positive_or_else: "total_positive (or_else v (JNum 0)) = total_positive v"
  by (cases v) (auto simp: or_else_def total_positive_def)

lemma nonempty_array_or_else: "nonempty_array (or_else v (JArr [])) = nonempty_array v"
  by (cases v) (auto simp: or_else_def nonempty_array_def)

text \<open>
  C9, as the claim states it, fails: \<^verbatim>\<open>normalizeManifest\<close> checks nothing. The compact
  document \<open>{v: 3, t: 5, c: []}\<close> becomes a manifest with total 5 and no chunk, and the
  legacy document \<open>{total: 5, chunks: []}\<close> is passed through as it is.
\<close>

theorem normalizeManifest_invariant_counterexample:
  "normalizeManifest (JObj [(''v'', JNum 3), (''t'', JNum 5), (''c'', JArr [])]) =
     Inr (JObj [(''version'', JNum 3), (''generated_at'', JUndefined), (''total'', JNum 5),
       (''chunk_size'', JNum 0), (''chunks'', JArr []), (''popular_tags'', JArr []),
       (''makers'', JArr []), (''series'', JArr [])]) \<and>
   \<not> manifest_invariant (JObj [(''version'', JNum 3), (''generated_at'', JUndefined),
       (''total'', JNum 5), (''chunk_size'', JNum 0), (''chunks'', JArr []),
       (''popular_tags'', JArr []), (''makers'', JArr []), (''series'', JArr [])]) \<and>
   normalizeManifest (JObj [(''total'', JNum 5), (''chunks'', JArr [])]) =
     Inr (JObj [(''total'', JNum 5), (''chunks'', JArr [])]) \<and>
   \<not> manifest_invariant (JObj [(''total'', JNum 5), (''chunks'', JArr [])])"
  by (simp add: normalizeManifest_def is_v3_def typeof_object_def js_prop_def or_else_def
      array_map_def manifest_invariant_def total_positive_def nonempty_array_def)

text \<open>
  C9, amended. \<^verbatim>\<open>normalizeManifest\<close> keeps the invariant: when the document that
  arrives has a chunk list that is not empty whenever its total is positive (\<open>t\<close> and \<open>c\<close>
  of the compact form, \<open>total\<close> and \<open>chunks\<close> of the legacy form), so has every manifest
  that \<^verbatim>\<open>normalizeManifest\<close> returns for it.
\<close>

theorem normalizeManifest_keeps_invariant:
  assumes "wire_invariant m" and "normalizeManifest m = Inr out"
  shows "manifest_invariant out"
proof (cases "is_v3 m")
  case False
  then show ?thesis using assms by (simp add: wire_invariant_def normalizeManifest_def)
next
  case True
  then obtain cs pts where
    cs: "array_map (pair_object ''file'' ''count'') (or_else (js_prop m ''c'') (JArr [])) = Inr cs"
    and out: "js_prop out ''total'' = or_else (js_prop m ''t'') (JNum 0)"
      "js_prop out ''chunks'' = cs"
    using assms(2) by (auto simp: normalizeManifest_def js_prop_def split: sum.splits)
  have "nonempty_array cs = nonempty_array (js_prop m ''c'')"
    using array_map_nonempty [OF cs] by (simp add: nonempty_array_or_else)
  then show ?thesis
    using assms(1) True out
    by (simp add: wire_invariant_def manifest_invariant_def total_positive_or_else)
qed

theorem normalizeManifest_keeps_invariant_witness:
  "total_positive (js_prop (JObj [(''v'', JNum 3), (''t'', JNum 5),
       (''c'', JArr [JArr [JStr (js ''a.dat''), JNum 3], JArr [JStr (js ''b.json''), JNum 2]])]) ''t'') \<and>
   wire_invariant (JObj [(''v'', JNum 3), (''t'', JNum 5),
       (''c'', JArr [JArr [JStr (js ''a.dat''), JNum 3], JArr [JStr (js ''b.json''), JNum 2]])]) \<and>
   normalizeManifest (JObj [(''v'', JNum 3), (''t'', JNum 5),
       (''c'', JArr [JArr [JStr (js ''a.dat''), JNum 3], JArr [JStr (js ''b.json''), JNum 2]])]) =
     Inr (JObj [(''version'', JNum 3), (''generated_at'', JUndefined), (''total'', JNum 5),
       (''chunk_size'', JNum 0),
       (''chunks'', JArr [JObj [(''file'', JStr (js ''a.dat'')), (''count'', JNum 3)],
                         JObj [(''file'', JStr (js ''b.json'')), (''count'', JNum 2)]]),
       (''popular_tags'', JArr []), (''makers'', JArr []), (''series'', JArr [])]) \<and>
   manifest_invariant (JObj [(''version'', JNum 3), (''generated_at'', JUndefined),
       (''total'', JNum 5), (''chunk_size'', JNum 0),
       (''chunks'', JArr [JObj [(''file'', JStr (js ''a.dat'')), (''count'', JNum 3)],
                         JObj [(''file'', JStr (js ''b.json'')), (''count'', JNum 2)]]),
       (''popular_tags'', JArr []), (''makers'', JArr []), (''series'', JArr [])])"
proof -
  let ?m = "JObj [(''v'', JNum 3), (''t'', JNum 5),
       (''c'', JArr [JArr [JStr (js ''a.dat''), JNum 3], JArr [JStr (js ''b.json''), JNum 2]])]"
  let ?out = "JObj [(''version'', JNum 3), (''generated_at'', JUndefined),
       (''total'', JNum 5), (''chunk_size'', JNum 0),
       (''chunks'', JArr [JObj [(''file'', JStr (js ''a.dat'')), (''count'', JNum 3)],
                         JObj [(''file'', JStr (js ''b.json'')), (''count'', JNum 2)]]),
       (''popular_tags'', JArr []), (''makers'', JArr []), (''series'', JArr [])]"
  have t: "total_positive (js_prop ?m ''t'')"
    by (simp add: js_prop_def total_positive_def)
  have w: "wire_invariant ?m"
    by (simp add: wire_invariant_def is_v3_def typeof_object_def js_prop_def nonempty_array_def)
  have n: "normalizeManifest ?m = Inr ?out"
    by (simp add: normalizeManifest_def is_v3_def typeof_object_def js_prop_def or_else_def
        array_map_def pair_object_def nullish_def js_at_def)
  show ?thesis
    by (intro conjI t w n normalizeManifest_keeps_invariant [OF w n])
qed

section \<open>Properties of the filter\<close>

lemma matchItem_True_tags:
  assumes "matchItem B st it = Inr True" and "st_tags st \<noteq> []"
  shows "list_all (\<lambda>t. JStr t \<in> set (array_or_empty (js_prop it ''tags''))) (st_tags st)"
proof (rule ccontr)
  assume n: "\<not> list_all (\<lambda>t. JStr t \<in> set (array_or_empty (js_prop it ''tags''))) (st_tags st)"
  have "matchItem B st it \<noteq> Inr True"
    unfolding matchItem_def using n assms(2) by simp
  then show False using assms(1) by simp
qed

lemma array_or_empty_mem: "x \<in> set (array_or_empty v) \<Longrightarrow> \<exists>ts. v = JArr ts \<and> x \<in> set ts"
  by (cases v) (auto simp: array_or_empty_def)

lemma matchItem_superset:
  assumes "matchItem B st it = Inr True" and "st_tags st \<noteq> []"
  shows "\<exists>ts. js_prop it ''tags'' = JArr ts \<and> JStr ` set (st_tags st) \<subseteq> set ts"
proof -
  have all: "\<forall>t \<in> set (st_tags st). JStr t \<in> set (array_or_empty (js_prop it ''tags''))"
    using matchItem_True_tags [OF assms] by (simp add: list_all_iff)
  obtain t where t: "t \<in> set (st_tags st)" using assms(2) by (cases "st_tags st") auto
  then obtain ts where ts: "js_prop it ''tags'' = JArr ts"
    using all array_or_empty_mem by blast
  then show ?thesis using all by (auto simp: array_or_empty_def)
qed

lemma matchItem_missing_tag:
  assumes "t \<in> set (st_tags st)" and "js_prop it ''tags'' = JArr ts" and "JStr t \<notin> set ts"
  shows "matchItem B st it = Inr False"
proof -
  have nn: "\<not> nullish it" using assms(2) by (auto simp: nullish_def js_prop_def)
  have ne: "st_tags st \<noteq> []" using assms(1) by auto
  have "\<not> list_all (\<lambda>t. JStr t \<in> set (array_or_empty (js_prop it ''tags''))) (st_tags st)"
    using assms by (auto simp: list_all_iff array_or_empty_def)
  then show ?thesis unfolding matchItem_def using nn ne by simp
qed

text \<open>
  C8. With a selection of tags that is not empty, \<^verbatim>\<open>matchItem\<close> accepts an item only
  if the item's \<open>tags\<close> is an array that holds every selected tag; and an item with the
  tags \<open>["vr", "outdoor"]\<close> is rejected when \<open>"vr"\<close> and \<open>"indoor"\<close> are selected, whatever
  the rest of the item and of the query.
\<close>

theorem matchItem_selected_tags:
  "(st_tags st \<noteq> [] \<longrightarrow> matchItem B st it = Inr True \<longrightarrow>
      (\<exists>ts. js_prop it ''tags'' = JArr ts \<and> JStr ` set (st_tags st) \<subseteq> set ts)) \<and>
   (set (st_tags st) = {js ''vr'', js ''indoor''} \<longrightarrow>
    js_prop it ''tags'' = JArr [JStr (js ''vr''), JStr (js ''outdoor'')] \<longrightarrow>
      matchItem B st it = Inr False)"
proof (intro conjI impI)
  assume "st_tags st \<noteq> []" and "matchItem B st it = Inr True"
  then show "\<exists>ts. js_prop it ''tags'' = JArr ts \<and> JStr ` set (st_tags st) \<subseteq> set ts"
    by (intro matchItem_superset)
next
  assume s: "set (st_tags st) = {js ''vr'', js ''indoor''}"
    and t: "js_prop it ''tags'' = JArr [JStr (js ''vr''), JStr (js ''outdoor'')]"
  have i: "js ''indoor'' \<in> set (st_tags st)" using s by simp
  have n: "JStr (js ''indoor'') \<notin> set [JStr (js ''vr''), JStr (js ''outdoor'')]" by simp
  show "matchItem B st it = Inr False" using i t n by (rule matchItem_missing_tag)
qed

theorem matchItem_selected_tags_witness:
  "st_tags \<lparr>st_q = [], st_maker = [], st_series = [], st_hasImg = False, st_hasMov = False,
     st_tags = [js ''vr'']\<rparr> \<noteq> [] \<and>
   matchItem plain_builtins
     \<lparr>st_q = [], st_maker = [], st_series = [], st_hasImg = False, st_hasMov = False,
       st_tags = [js ''vr'']\<rparr>
     (JObj [(''tags'', JArr [JStr (js ''vr''), JStr (js ''outdoor'')])]) = Inr True \<and>
   set (st_tags \<lparr>st_q = [], st_maker = [], st_series = [], st_hasImg = False, st_hasMov = False,
     st_tags = [js ''vr'', js ''indoor'']\<rparr>) = {js ''vr'', js ''indoor''} \<and>
   js_prop (JObj [(''tags'', JArr [JStr (js ''vr''), JStr (js ''outdoor'')])]) ''tags'' =
     JArr [JStr (js ''vr''), JStr (js ''outdoor'')] \<and>
   matchItem plain_builtins
     \<lparr>st_q = [], st_maker = [], st_series = [], st_hasImg = False, st_hasMov = False,
       st_tags = [js ''vr'', js ''indoor'']\<rparr>
     (JObj [(''tags'', JArr [JStr (js ''vr''), JStr (js ''outdoor'')])]) = Inr False"
proof -
  let ?it = "JObj [(''tags'', JArr [JStr (js ''vr''), JStr (js ''outdoor'')])]"
  let ?st1 = "\<lparr>st_q = [], st_maker = [], st_series = [], st_hasImg = False, st_hasMov = False,
       st_tags = [js ''vr'']\<rparr>"
  let ?st2 = "\<lparr>st_q = [], st_maker = [], st_series = [], st_hasImg = False, st_hasMov = False,
       st_tags = [js ''vr'', js ''indoor'']\<rparr>"
  have a: "st_tags ?st1 \<noteq> []" by simp
  have b: "matchItem plain_builtins ?st1 ?it = Inr True"
    by (simp add: matchItem_def nullish_def js_prop_def array_or_empty_def norm_js_def
        toString_js_def or_else_def plain_builtins_def)
  have c: "set (st_tags ?st2) = {js ''vr'', js ''indoor''}" by simp
  have d: "js_prop ?it ''tags'' = JArr [JStr (js ''vr''), JStr (js ''outdoor'')]"
    by (simp add: js_prop_def)
  have e: "matchItem plain_builtins ?st2 ?it = Inr False"
    using matchItem_selected_tags [of ?st2 plain_builtins ?it] c d by blast
  show ?thesis by (intro conjI a b c d e)
qed

section \<open>Properties of the chunk scanner\<close>

lemma scan_items_shown:
  "\<exists>k \<le> length items. snd (snd (scan_items B items frag s)) = s\<lparr>shown := shown s + k\<rparr>"
proof (induction items arbitrary: frag s)
  case Nil
  then show ?case by simp
next
  case (Cons raw rest)
  obtain k1 where k1: "k1 \<le> length rest"
      "snd (snd (scan_items B rest frag s)) = s\<lparr>shown := shown s + k1\<rparr>"
    using Cons.IH [of frag s] by blast
  show ?case
  proof (cases "normalizeItem B raw")
    case (Inl e)
    then show ?thesis by (intro exI [of _ 0]) simp
  next
    case (Inr it)
    show ?thesis
    proof (cases "matchItem B (query s) it")
      case (Inl e)
      then show ?thesis using Inr by (intro exI [of _ 0]) simp
    next
      case m: (Inr b)
      show ?thesis
      proof (cases b)
        case False
        then show ?thesis using Inr m k1 by (intro exI [of _ k1]) simp
      next
        case True
        show ?thesis
        proof (cases "createCard B it")
          case (Inl e)
          then show ?thesis using Inr m True by (intro exI [of _ 0]) simp
        next
          case c: (Inr c)
          obtain k2 where k2: "k2 \<le> length rest"
            "snd (snd (scan_items B rest (frag @ [c]) (s\<lparr>shown := shown s + 1\<rparr>))) =
               s\<lparr>shown := shown s + 1 + k2\<rparr>"
            using Cons.IH [of "frag @ [c]" "s\<lparr>shown := shown s + 1\<rparr>"] by auto
          then show ?thesis using Inr m True c by (intro exI [of _ "Suc k2"]) simp
        qed
      qed
    qed
  qed
qed

lemma updateStatus_fields:
  assumes "updateStatus B s = Inr s'"
  shows "scanned s' = scanned s" "shown s' = shown s" "loading s' = loading s"
  using assms by (auto simp: updateStatus_def split: if_splits)

lemma resume_loading: "loading (loadNextChunk_resume B outcome s) = False"
  by (simp add: loadNextChunk_resume_def Let_def)

lemma resume_failed:
  "scanned (loadNextChunk_resume B (Inl e) s) = scanned s"
  "shown (loadNextChunk_resume B (Inl e) s) = shown s"
  by (simp_all add: loadNextChunk_resume_def)

lemma resume_decoded:
  "scanned (loadNextChunk_resume B (Inr payload) s) = scanned s + length (chunk_items payload)"
  "shown s \<le> shown (loadNextChunk_resume B (Inr payload) s)"
  "shown (loadNextChunk_resume B (Inr payload) s) \<le> shown s + length (chunk_items payload)"
proof -
  define s1 where "s1 = s\<lparr>scanned := scanned s + length (chunk_items payload)\<rparr>"
  obtain err frag s2 where sc: "scan_items B (chunk_items payload) [] s1 = (err, frag, s2)"
    by (cases "scan_items B (chunk_items payload) [] s1")
  obtain k where k: "k \<le> length (chunk_items payload)" "s2 = s1\<lparr>shown := shown s1 + k\<rparr>"
    using scan_items_shown [of "chunk_items payload" B "[]" s1] sc by auto
  define s3 where "s3 = s2\<lparr>results := results s2 @ frag\<rparr>"
  have r: "loadNextChunk_resume B (Inr payload) s =
      (case err of Some e \<Rightarrow> s2\<lparr>status := StatusLoadFailed\<rparr>
                 | None \<Rightarrow> (case updateStatus B s3 of
                      Inl e \<Rightarrow> s3\<lparr>status := StatusLoadFailed\<rparr>
                    | Inr s4 \<Rightarrow> s4))\<lparr>loading := False\<rparr>"
    using sc
    by (cases err; cases "updateStatus B (s2\<lparr>results := results s2 @ frag\<rparr>)")
       (simp_all add: loadNextChunk_resume_def Let_def s1_def s3_def)
  have c: "scanned (loadNextChunk_resume B (Inr payload) s) = scanned s2 \<and>
           shown (loadNextChunk_resume B (Inr payload) s) = shown s2"
    unfolding r
    by (cases err; cases "updateStatus B s3")
       (auto simp: s3_def dest: updateStatus_fields(1,2))
  show "scanned (loadNextChunk_resume B (Inr payload) s) = scanned s + length (chunk_items payload)"
    using c k by (simp add: s1_def)
  show "shown s \<le> shown (loadNextChunk_resume B (Inr payload) s)"
    using c k by (simp add: s1_def)
  show "shown (loadNextChunk_resume B (Inr payload) s) \<le> shown s + length (chunk_items payload)"
    using c k by (simp add: s1_def)
qed

lemma clearResults_counters:
  "scanned (fst (clearResults B s)) = 0" "shown (fst (clearResults B s)) = 0"
  "loading (fst (clearResults B s)) = loading s"
  by (auto simp: clearResults_def Let_def split: sum.splits dest: updateStatus_fields)

lemma begin_fields:
  "scanned (fst (loadNextChunk_begin s)) = scanned s"
  "shown (fst (loadNextChunk_begin s)) = shown s"
  "loading (fst (loadNextChunk_begin s)) \<longleftrightarrow> loading s \<or> snd (loadNextChunk_begin s) \<noteq> None"
  by (simp_all add: loadNextChunk_begin_def)

lemma step_scanned:
  "scanned (fst (step B e \<sigma>)) =
     (case e of
        Reset \<Rightarrow> 0
      | Settle (Inr payload) \<Rightarrow>
          (if snd \<sigma> \<noteq> None then scanned (fst \<sigma>) + length (chunk_items payload)
           else scanned (fst \<sigma>))
      | _ \<Rightarrow> scanned (fst \<sigma>))"
proof (cases \<sigma>)
  case (Pair s p)
  show ?thesis
  proof (cases e)
    case LoadNext
    then show ?thesis using Pair begin_fields(1) [of s]
      by (cases "loadNextChunk_begin s") (auto split: option.splits)
  next
    case (Settle outcome)
    then show ?thesis using Pair
      by (cases p; cases outcome) (simp_all add: resume_failed resume_decoded)
  qed (simp_all add: Pair clearResults_counters)
qed

lemma step_shown_le_scanned:
  assumes "shown (fst \<sigma>) \<le> scanned (fst \<sigma>)"
  shows "shown (fst (step B e \<sigma>)) \<le> scanned (fst (step B e \<sigma>))"
proof (cases \<sigma>)
  case (Pair s p)
  show ?thesis
  proof (cases e)
    case LoadNext
    then show ?thesis using Pair assms begin_fields(1,2) [of s]
      by (cases "loadNextChunk_begin s") (auto split: option.splits)
  next
    case (Settle outcome)
    show ?thesis
    proof (cases p)
      case None
      then show ?thesis using Settle Pair assms by simp
    next
      case (Some c)
      show ?thesis
      proof (cases outcome)
        case (Inl err)
        then show ?thesis using Settle Pair Some assms by (simp add: resume_failed)
      next
        case (Inr payload)
        then show ?thesis
          using Settle Pair Some assms resume_decoded(1,3) [of B payload s] by simp
      qed
    qed
  qed (use assms Pair in \<open>simp_all add: clearResults_counters\<close>)
qed

lemma step_monotone:
  assumes "e \<noteq> Reset"
  shows "scanned (fst \<sigma>) \<le> scanned (fst (step B e \<sigma>))"
    and "shown (fst \<sigma>) \<le> shown (fst (step B e \<sigma>))"
proof -
  obtain s p where Pair: "\<sigma> = (s, p)" by (cases \<sigma>)
  show "scanned (fst \<sigma>) \<le> scanned (fst (step B e \<sigma>))"
    unfolding step_scanned using assms by (auto split: event.splits sum.splits)
  show "shown (fst \<sigma>) \<le> shown (fst (step B e \<sigma>))"
  proof (cases e)
    case LoadNext
    then show ?thesis using Pair begin_fields(2) [of s]
      by (cases "loadNextChunk_begin s") (auto split: option.splits)
  next
    case (Settle outcome)
    then show ?thesis using Pair resume_decoded(2) [of s B]
      by (cases p; cases outcome) (simp_all add: resume_failed)
  qed (use assms Pair in simp_all)
qed

lemma step_guard:
  assumes "loading (fst \<sigma>) \<longrightarrow> snd \<sigma> \<noteq> None"
  shows "loading (fst (step B e \<sigma>)) \<longrightarrow> snd (step B e \<sigma>) \<noteq> None"
proof (cases \<sigma>)
  case (Pair s p)
  show ?thesis
  proof (cases e)
    case LoadNext
    then show ?thesis using Pair assms begin_fields(3) [of s]
      by (cases "loadNextChunk_begin s") (auto split: option.splits)
  next
    case (Settle outcome)
    then show ?thesis using Pair assms by (cases p) (simp_all add: resume_loading)
  qed (use assms Pair in \<open>simp_all add: clearResults_counters\<close>)
qed

lemma foldl_step_scanned:
  "scanned (fst \<sigma>) = sum_list (map length acc) \<Longrightarrow>
   scanned (fst (foldl (\<lambda>\<sigma> e. step B e \<sigma>) \<sigma> evs)) =
     sum_list (map length (decoded_since_reset B evs \<sigma> acc))"
proof (induction evs arbitrary: \<sigma> acc)
  case Nil
  then show ?case by simp
next
  case (Cons e evs)
  define acc' where "acc' = (case e of
          Reset \<Rightarrow> []
        | Settle (Inr payload) \<Rightarrow> (if snd \<sigma> \<noteq> None then acc @ [chunk_items payload] else acc)
        | _ \<Rightarrow> acc)"
  have "scanned (fst (step B e \<sigma>)) = sum_list (map length acc')"
    unfolding step_scanned acc'_def using Cons.prems by (auto split: event.splits sum.splits)
  from Cons.IH [OF this] show ?case by (simp add: acc'_def)
qed

lemma foldl_step_invariant:
  "shown (fst \<sigma>) \<le> scanned (fst \<sigma>) \<Longrightarrow> (loading (fst \<sigma>) \<longrightarrow> snd \<sigma> \<noteq> None) \<Longrightarrow>
   shown (fst (foldl (\<lambda>\<sigma> e. step B e \<sigma>) \<sigma> evs)) \<le>
     scanned (fst (foldl (\<lambda>\<sigma> e. step B e \<sigma>) \<sigma> evs)) \<and>
   (loading (fst (foldl (\<lambda>\<sigma> e. step B e \<sigma>) \<sigma> evs)) \<longrightarrow>
     snd (foldl (\<lambda>\<sigma> e. step B e \<sigma>) \<sigma> evs) \<noteq> None)"
proof (induction evs arbitrary: \<sigma>)
  case Nil
  then show ?case by simp
next
  case (Cons e evs)
  show ?case
    using Cons.IH [OF step_shown_le_scanned [OF Cons.prems(1)] step_guard [OF Cons.prems(2)]]
    by simp
qed

lemma run_invariant:
  "shown (fst (run B evs)) \<le> scanned (fst (run B evs))"
  "loading (fst (run B evs)) \<longrightarrow> snd (run B evs) \<noteq> None"
  using foldl_step_invariant [of "(initial, None)" B evs] by (simp_all add: run_def initial_def)

lemma run_snoc: "run B (evs @ [e]) = step B e (run B evs)"
  by (simp add: run_def)

lemmas scanner_simps = run_def initial_def clearResults_def updateStatus_def slice_chunks_def
  loadNextChunk_def loadNextChunk_begin_def loadNextChunk_resume_def chunk_items_def is_array_def
  array_or_empty_def normalizeItem_def matchItem_def createCard_def text_fails_def norm_js_def
  toString_js_def
  plain_builtins_def js_prop_def js_at_def or_else_def Number_js_def nullish_def is_string_def
  Let_def

text \<open>
  The scenario of the specification: a manifest with the two chunks \<open>a.dat\<close> (3 entries)
  and \<open>b.json\<close> (2 entries) and the empty query; after two loads, 5 scanned and 5 shown.
\<close>

lemma scenario_two_chunks:
  "scanned (fst (run plain_builtins
     [ManifestLoaded (JObj [(''total'', JNum 5),
         (''chunks'', JArr [JObj [(''file'', JStr (js ''a.dat'')), (''count'', JNum 3)],
                           JObj [(''file'', JStr (js ''b.json'')), (''count'', JNum 2)]])]),
      Reset, LoadNext,
      Settle (Inr (JArr [JArr [JStr (js ''w1'')], JArr [JStr (js ''w2'')], JArr [JStr (js ''w3'')]])),
      LoadNext,
      Settle (Inr (JArr [JArr [JStr (js ''w4'')], JArr [JStr (js ''w5'')]]))])) = 5 \<and>
   shown (fst (run plain_builtins
     [ManifestLoaded (JObj [(''total'', JNum 5),
         (''chunks'', JArr [JObj [(''file'', JStr (js ''a.dat'')), (''count'', JNum 3)],
                           JObj [(''file'', JStr (js ''b.json'')), (''count'', JNum 2)]])]),
      Reset, LoadNext,
      Settle (Inr (JArr [JArr [JStr (js ''w1'')], JArr [JStr (js ''w2'')], JArr [JStr (js ''w3'')]])),
      LoadNext,
      Settle (Inr (JArr [JArr [JStr (js ''w4'')], JArr [JStr (js ''w5'')]]))])) = 5"
  by (simp add: scanner_simps)

text \<open>
  C6. After any sequence of events (resets, calls of \<^verbatim>\<open>loadNextChunk\<close>, loads that
  settle with a payload or with a failure, changes of the query), \<open>scanned\<close> is the sum of
  the lengths of the entry lists decoded since the last reset and \<open>shown\<close> is at most
  \<open>scanned\<close>; and no event other than a reset lowers either counter.
\<close>

theorem scanner_counters:
  "scanned (fst (run B evs)) =
     sum_list (map length (decoded_since_reset B evs (initial, None) [])) \<and>
   shown (fst (run B evs)) \<le> scanned (fst (run B evs)) \<and>
   (e \<noteq> Reset \<longrightarrow>
      scanned (fst (run B evs)) \<le> scanned (fst (run B (evs @ [e]))) \<and>
      shown (fst (run B evs)) \<le> shown (fst (run B (evs @ [e]))))"
proof (intro conjI impI)
  show "scanned (fst (run B evs)) =
      sum_list (map length (decoded_since_reset B evs (initial, None) []))"
    unfolding run_def by (rule foldl_step_scanned) (simp add: initial_def)
  show "shown (fst (run B evs)) \<le> scanned (fst (run B evs))"
    by (rule run_invariant)
next
  assume "e \<noteq> Reset"
  then show "scanned (fst (run B evs)) \<le> scanned (fst (run B (evs @ [e])))"
    and "shown (fst (run B evs)) \<le> shown (fst (run B (evs @ [e])))"
    unfolding run_snoc by (rule step_monotone)+
qed

theorem scanner_counters_witness:
  "Settle (Inr (JArr [JArr [JStr (js ''w1'')], JArr [JStr (js ''w2'')]])) \<noteq> Reset \<and>
   scanned (fst (run plain_builtins
     [ManifestLoaded (JObj [(''total'', JNum 2),
        (''chunks'', JArr [JObj [(''file'', JStr (js ''a.dat'')), (''count'', JNum 2)]])]),
      Reset, LoadNext])) = 0 \<and>
   scanned (fst (run plain_builtins
     ([ManifestLoaded (JObj [(''total'', JNum 2),
        (''chunks'', JArr [JObj [(''file'', JStr (js ''a.dat'')), (''count'', JNum 2)]])]),
      Reset, LoadNext] @
      [Settle (Inr (JArr [JArr [JStr (js ''w1'')], JArr [JStr (js ''w2'')]]))]))) = 2 \<and>
   scanned (fst (run plain_builtins
     [ManifestLoaded (JObj [(''total'', JNum 2),
        (''chunks'', JArr [JObj [(''file'', JStr (js ''a.dat'')), (''count'', JNum 2)]])]),
      Reset, LoadNext])) \<le>
   scanned (fst (run plain_builtins
     ([ManifestLoaded (JObj [(''total'', JNum 2),
        (''chunks'', JArr [JObj [(''file'', JStr (js ''a.dat'')), (''count'', JNum 2)]])]),
      Reset, LoadNext] @
      [Settle (Inr (JArr [JArr [JStr (js ''w1'')], JArr [JStr (js ''w2'')]]))])))"
proof -
  let ?evs = "[ManifestLoaded (JObj [(''total'', JNum 2),
        (''chunks'', JArr [JObj [(''file'', JStr (js ''a.dat'')), (''count'', JNum 2)]])]),
      Reset, LoadNext]"
  let ?e = "Settle (Inr (JArr [JArr [JStr (js ''w1'')], JArr [JStr (js ''w2'')]]))"
  have a: "?e \<noteq> Reset" by simp
  have b: "scanned (fst (run plain_builtins ?evs)) = 0" by (simp add: scanner_simps)
  have c: "scanned (fst (run plain_builtins (?evs @ [?e]))) = 2" by (simp add: scanner_simps)
  have d: "scanned (fst (run plain_builtins ?evs)) \<le> scanned (fst (run plain_builtins (?evs @ [?e])))"
    using scanner_counters [of plain_builtins ?evs ?e] a by blast
  show ?thesis by (intro conjI a b c d)
qed

text \<open>
  An invocation that finds the guard set returns at once and changes nothing: the guard is
  that of the invocation in flight.
\<close>

lemma loadNextChunk_while_loading: "loading s \<Longrightarrow> loadNextChunk B loadChunkData s = s"
  by (simp add: loadNextChunk_def loadNextChunk_begin_def)

text \<open>
  C7. The part of \<^verbatim>\<open>loadNextChunk\<close> after its \<open>await\<close> ends with the guard cleared,
  whatever the load gave: a failure of the fetch or of the decoding, a payload, a payload
  whose processing throws. So an invocation that starts a load ends with the guard clear;
  and in every state reached by any sequence of events the guard is set only while an
  invocation is in flight, and the settling of that invocation, with any outcome, clears it.
\<close>

theorem loading_guard_released:
  "\<not> loading (loadNextChunk_resume B outcome s) \<and>
   (\<not> loading s \<longrightarrow> \<not> loading (loadNextChunk B loadChunkData s)) \<and>
   (loading (fst (run B evs)) \<longrightarrow>
      snd (run B evs) \<noteq> None \<and> \<not> loading (fst (run B (evs @ [Settle outcome]))))"
proof (intro conjI impI)
  show "\<not> loading (loadNextChunk_resume B outcome s)" by (simp add: resume_loading)
next
  assume "\<not> loading s"
  then show "\<not> loading (loadNextChunk B loadChunkData s)"
    by (auto simp: loadNextChunk_def loadNextChunk_begin_def resume_loading)
next
  assume l: "loading (fst (run B evs))"
  then show p: "snd (run B evs) \<noteq> None" using run_invariant(2) by blast
  then obtain c where "run B evs = (fst (run B evs), Some c)" by (cases "run B evs") auto
  then have "step B (Settle outcome) (run B evs) =
      (loadNextChunk_resume B outcome (fst (run B evs)), None)"
    by (metis step.simps(6))
  then show "\<not> loading (fst (run B (evs @ [Settle outcome])))"
    by (simp add: run_snoc resume_loading)
qed

theorem loading_guard_released_witness:
  "\<not> loading (initial\<lparr>manifest := JObj [(''chunks'', JArr [JObj [(''file'', JStr (js ''a.dat''))]])],
       chunks := [JObj [(''file'', JStr (js ''a.dat''))]]\<rparr>) \<and>
   \<not> loading (loadNextChunk plain_builtins (\<lambda>chunk. Inl ChunkLoadError)
      (initial\<lparr>manifest := JObj [(''chunks'', JArr [JObj [(''file'', JStr (js ''a.dat''))]])],
         chunks := [JObj [(''file'', JStr (js ''a.dat''))]]\<rparr>)) \<and>
   loading (fst (run plain_builtins
     [ManifestLoaded (JObj [(''chunks'', JArr [JObj [(''file'', JStr (js ''a.dat''))]])]),
      Reset, LoadNext])) \<and>
   \<not> loading (fst (run plain_builtins
     ([ManifestLoaded (JObj [(''chunks'', JArr [JObj [(''file'', JStr (js ''a.dat''))]])]),
       Reset, LoadNext] @ [Settle (Inl ChunkLoadError)])))"
proof -
  let ?s = "initial\<lparr>manifest := JObj [(''chunks'', JArr [JObj [(''file'', JStr (js ''a.dat''))]])],
       chunks := [JObj [(''file'', JStr (js ''a.dat''))]]\<rparr>"
  let ?evs = "[ManifestLoaded (JObj [(''chunks'', JArr [JObj [(''file'', JStr (js ''a.dat''))]])]),
      Reset, LoadNext]"
  let ?env = "\<lambda>chunk :: jsval. (Inl ChunkLoadError :: error + jsval)"
  have a: "\<not> loading ?s" by (simp add: initial_def)
  have b: "\<not> loading (loadNextChunk plain_builtins ?env ?s)"
    using loading_guard_released [of plain_builtins "Inl ChunkLoadError" ?s ?env "[]"] a by blast
  have e: "loading (fst (run plain_builtins ?evs))" by (simp add: scanner_simps)
  have f: "\<not> loading (fst (run plain_builtins (?evs @ [Settle (Inl ChunkLoadError)])))"
    using loading_guard_released [of plain_builtins "Inl ChunkLoadError" initial ?env ?evs] e
    by blast
  show ?thesis by (intro conjI a b e f)
qed

text \<open>
  C10. When the guards of \<^verbatim>\<open>loadNextChunk\<close> pass and the load of the chunk gives a
  payload that is not an array, the payload is taken as an empty list of entries: the loop
  over the entries runs over nothing and raises nothing, no card is added, \<open>scanned\<close> and
  \<open>shown\<close> are unchanged, the guard is clear again and the cursor has moved past the
  chunk. Nothing else changes but the status line, which shows the counts and not the
  failure message when it can print the total of the manifest, as it can every number.
\<close>

theorem non_array_payload_is_empty_chunk:
  assumes "\<not> loading s" and "truthy (manifest s)" and "chunkIndex s < length (chunks s)"
    and "loadChunkData (chunks s ! chunkIndex s) = Inr payload"
    and "\<not> is_array payload"
  shows "chunk_items payload = [] \<and>
         scan_items B (chunk_items payload) [] s = (None, [], s) \<and>
         results (loadNextChunk B loadChunkData s) = results s \<and>
         scanned (loadNextChunk B loadChunkData s) = scanned s \<and>
         shown (loadNextChunk B loadChunkData s) = shown s \<and>
         chunkIndex (loadNextChunk B loadChunkData s) = chunkIndex s + 1 \<and>
         \<not> loading (loadNextChunk B loadChunkData s) \<and>
         (\<not> text_fails B (js_prop (manifest s) ''total'') \<longrightarrow>
            loadNextChunk B loadChunkData s =
              s\<lparr>chunkIndex := chunkIndex s + 1,
                status := StatusCounts (shown s) (scanned s) (js_prop (manifest s) ''total'')\<rparr>)"
proof -
  have e: "chunk_items payload = []" using assms(5) by (simp add: chunk_items_def)
  have "loadNextChunk_begin s =
      (s\<lparr>loading := True, chunkIndex := chunkIndex s + 1\<rparr>, Some (chunks s ! chunkIndex s))"
    using assms(1-3) by (simp add: loadNextChunk_begin_def)
  then have l: "loadNextChunk B loadChunkData s =
      loadNextChunk_resume B (Inr payload) (s\<lparr>loading := True, chunkIndex := chunkIndex s + 1\<rparr>)"
    using assms(4) by (simp add: loadNextChunk_def)
  have r: "loadNextChunk_resume B (Inr payload) (s\<lparr>loading := True, chunkIndex := chunkIndex s + 1\<rparr>) =
      (if text_fails B (js_prop (manifest s) ''total'')
       then s\<lparr>chunkIndex := chunkIndex s + 1, status := StatusLoadFailed\<rparr>
       else s\<lparr>chunkIndex := chunkIndex s + 1,
              status := StatusCounts (shown s) (scanned s) (js_prop (manifest s) ''total'')\<rparr>)"
    using assms(1,2) by (simp add: loadNextChunk_resume_def e updateStatus_def)
  show ?thesis unfolding l r using assms(1) e by simp
qed

theorem non_array_payload_is_empty_chunk_witness:
  "\<not> loading (initial\<lparr>manifest := JObj [(''total'', JNum 3)],
       chunks := [JObj [(''file'', JStr (js ''a.json''))]]\<rparr>) \<and>
   truthy (manifest (initial\<lparr>manifest := JObj [(''total'', JNum 3)],
       chunks := [JObj [(''file'', JStr (js ''a.json''))]]\<rparr>)) \<and>
   chunkIndex (initial\<lparr>manifest := JObj [(''total'', JNum 3)],
       chunks := [JObj [(''file'', JStr (js ''a.json''))]]\<rparr>) <
     length (chunks (initial\<lparr>manifest := JObj [(''total'', JNum 3)],
       chunks := [JObj [(''file'', JStr (js ''a.json''))]]\<rparr>)) \<and>
   \<not> is_array (JObj [(''error'', JStr (js ''gone''))]) \<and>
   \<not> text_fails plain_builtins (js_prop (manifest (initial\<lparr>manifest := JObj [(''total'', JNum 3)],
       chunks := [JObj [(''file'', JStr (js ''a.json''))]]\<rparr>)) ''total'') \<and>
   loadNextChunk plain_builtins (\<lambda>chunk. Inr (JObj [(''error'', JStr (js ''gone''))]))
     (initial\<lparr>manifest := JObj [(''total'', JNum 3)],
        chunks := [JObj [(''file'', JStr (js ''a.json''))]]\<rparr>) =
   initial\<lparr>manifest := JObj [(''total'', JNum 3)],
     chunks := [JObj [(''file'', JStr (js ''a.json''))]], chunkIndex := 1,
     status := StatusCounts 0 0 (JNum 3)\<rparr>"
proof -
  let ?s = "initial\<lparr>manifest := JObj [(''total'', JNum 3)],
       chunks := [JObj [(''file'', JStr (js ''a.json''))]]\<rparr>"
  let ?p = "JObj [(''error'', JStr (js ''gone''))]"
  have a: "\<not> loading ?s" by (simp add: initial_def)
  have b: "truthy (manifest ?s)" by simp
  have c: "chunkIndex ?s < length (chunks ?s)" by (simp add: initial_def)
  have d: "(\<lambda>chunk :: jsval. (Inr ?p :: error + jsval)) (chunks ?s ! chunkIndex ?s) = Inr ?p" by simp
  have e: "\<not> is_array ?p" by (simp add: is_array_def)
  have g: "\<not> text_fails plain_builtins (js_prop (manifest ?s) ''total'')"
    by (simp add: text_fails_def js_prop_def)
  have "loadNextChunk plain_builtins (\<lambda>chunk. Inr ?p) ?s =
      ?s\<lparr>chunkIndex := chunkIndex ?s + 1,
         status := StatusCounts (shown ?s) (scanned ?s) (js_prop (manifest ?s) ''total'')\<rparr>"
    using non_array_payload_is_empty_chunk [OF a b c d e, of plain_builtins] g by blast
  then have f: "loadNextChunk plain_builtins (\<lambda>chunk. Inr ?p) ?s =
      initial\<lparr>manifest := JObj [(''total'', JNum 3)],
        chunks := [JObj [(''file'', JStr (js ''a.json''))]], chunkIndex := 1,
        status := StatusCounts 0 0 (JNum 3)\<rparr>"
    by (simp add: initial_def js_prop_def)
  show ?thesis by (intro conjI a b c e g f)
qed

end
